theory Spec2Isabelle
  imports Main "HOL-Library.Word"
begin

unbundle bit_operations_syntax

section \<open>The Python values the client works on\<close>

text \<open>
  \<^verbatim>\<open>auth.py\<close> is a UDP client: it packs a request with \<^verbatim>\<open>struct.pack\<close>, sends it with
  retries on timeout (\<^verbatim>\<open>sendPayload\<close>), and unpacks the reply with \<^verbatim>\<open>struct.unpack\<close>.

  A Python \<^verbatim>\<open>bytes\<close> value is a list of 8-bit words. A Python \<^verbatim>\<open>str\<close> is a \<open>string\<close>
  whose characters are the code points U+0000 to U+00FF; those from U+0080 on are the
  non-ASCII ones, which the \<^verbatim>\<open>ascii\<close> codec rejects. Python integers are \<open>int\<close>.
  Every exception the code can raise is a value of \<open>error\<close>.
\<close>

type_synonym byte = "8 word"
type_synonym bytes = "byte list"

datatype error = UnicodeEncodeError | UnicodeDecodeError | StructError

subsection \<open>String methods and the ascii codec\<close>

text \<open>\<^verbatim>\<open>s.ljust(w)\<close>: spaces are appended up to width \<open>w\<close>; a longer string is unchanged.\<close>

definition ljust :: "string \<Rightarrow> nat \<Rightarrow> string" where
  "ljust s w = s @ replicate (w - length s) (CHR '' '')"

text \<open>
  \<^verbatim>\<open>c.isspace()\<close> on the code points below U+0100: tab to carriage return, the four
  separators U+001C to U+001F, the space, NEL (U+0085) and the no-break space (U+00A0).
\<close>

definition isspace :: "char \<Rightarrow> bool" where
  "isspace c = (let n = (of_char c :: nat)
     in (9 \<le> n \<and> n \<le> 13) \<or> (28 \<le> n \<and> n \<le> 32) \<or> n = 133 \<or> n = 160)"

text \<open>\<^verbatim>\<open>s.strip()\<close>: leading and trailing whitespace removed.\<close>

definition strip :: "string \<Rightarrow> string" where
  "strip s = rev (dropWhile isspace (rev (dropWhile isspace s)))"

text \<open>
  \<^verbatim>\<open>s.isascii()\<close>, and \<^verbatim>\<open>bytes(s, encoding="ascii")\<close>: one byte per character, the
  character's code point; raises on a character above U+007F.
\<close>

definition isascii :: "string \<Rightarrow> bool" where
  "isascii s = list_all (\<lambda>c. (of_char c :: nat) < 128) s"

definition ascii_bytes :: "string \<Rightarrow> bytes" where
  "ascii_bytes s = map (\<lambda>c. of_nat (of_char c)) s"

definition ascii_encode :: "string \<Rightarrow> error + bytes" where
  "ascii_encode s = (if isascii s then Inr (ascii_bytes s) else Inl UnicodeEncodeError)"

text \<open>\<^verbatim>\<open>b.decode("ascii")\<close>: raises on a byte above 0x7F.\<close>

definition ascii_decode :: "bytes \<Rightarrow> error + string" where
  "ascii_decode b =
     (if list_all (\<lambda>x. unat x < 128) b
      then Inr (map (\<lambda>x. char_of (unat x)) b)
      else Inl UnicodeDecodeError)"

text \<open>\<^verbatim>\<open>str(i)\<close> on an integer, as the f-strings format it.\<close>

fun str_nat :: "nat \<Rightarrow> string" where
  "str_nat n =
     (if n < 10 then [char_of (48 + n)]
      else str_nat (n div 10) @ [char_of (48 + n mod 10)])"

definition str_int :: "int \<Rightarrow> string" where
  "str_int i = (if i < 0 then CHR ''-'' # str_nat (nat (- i)) else str_nat (nat i))"

subsection \<open>The struct formats in network byte order\<close>

text \<open>
  \<^verbatim>\<open>h\<close> is a signed 16-bit field and \<^verbatim>\<open>i\<close> a signed 32-bit field, both big-endian under
  \<^verbatim>\<open>!\<close>; packing a value outside the field's range raises \<^verbatim>\<open>struct.error\<close>.
  \<^verbatim>\<open>Ns\<close> takes the first \<open>N\<close> bytes of its argument and fills up with zero bytes.
\<close>

definition pack_h :: "int \<Rightarrow> error + bytes" where
  "pack_h v =
     (if - 32768 \<le> v \<and> v \<le> 32767
      then (let w = (word_of_int v :: 16 word) in Inr [ucast (drop_bit 8 w), ucast w])
      else Inl StructError)"

definition pack_i :: "int \<Rightarrow> error + bytes" where
  "pack_i v =
     (if - 2147483648 \<le> v \<and> v \<le> 2147483647
      then (let w = (word_of_int v :: 32 word)
            in Inr [ucast (drop_bit 24 w), ucast (drop_bit 16 w), ucast (drop_bit 8 w), ucast w])
      else Inl StructError)"

definition pack_s :: "nat \<Rightarrow> bytes \<Rightarrow> bytes" where
  "pack_s n b = take n b @ replicate (n - length b) 0"

text \<open>Reading a field back; the caller hands over exactly the field's bytes.\<close>

definition be_word :: "bytes \<Rightarrow> 'a::len word" where
  "be_word b = foldl (\<lambda>acc x. push_bit 8 acc OR ucast x) 0 b"

definition unpack_h :: "bytes \<Rightarrow> int" where
  "unpack_h b = sint (be_word b :: 16 word)"

definition unpack_i :: "bytes \<Rightarrow> int" where
  "unpack_i b = sint (be_word b :: 32 word)"

section \<open>The error table\<close>

definition authServerErrorMsg :: "string list" where
  "authServerErrorMsg =
     [''INVALID_MESSAGE_CODE'',
      ''INCORRECT_MESSAGE_LENGTH'',
      ''INVALID_PARAMETER'',
      ''INVALID_SINGLE_TOKEN'',
      ''ASCII_DECODE_ERROR'']"

definition getServerErrorMsg :: "int \<Rightarrow> string" where
  "getServerErrorMsg code =
     (if code > int (length authServerErrorMsg) \<or> code < 1
      then ''UNKNOWN_ERROR_CODE''
      else authServerErrorMsg ! nat (code - 1))"

section \<open>The exchange: \<^verbatim>\<open>sendPayload\<close>\<close>

text \<open>
  What a call returns, raises or prints before leaving the process: \<open>Exit c line\<close> is
  \<^verbatim>\<open>print(line); exit(c)\<close>.
\<close>

datatype 'a outcome = Return 'a | Raise error | Exit int string

text \<open>
  The connected datagram socket is the environment. One loop iteration calls
  \<^verbatim>\<open>sock.send(payload)\<close> and then \<^verbatim>\<open>sock.recv(bufSize)\<close>; what happens there is one
  \<open>sock_event\<close>: the send or the receive raises \<^verbatim>\<open>socket.timeout\<close>, or another
  \<^verbatim>\<open>OSError\<close> (with its text), or a datagram arrives. A socket is the event of each
  iteration, counted from 0. The length of the timeout (\<^verbatim>\<open>timeoutSec\<close>) is not modelled.
\<close>

datatype sock_event =
  SendTimeout | SendOSError string | RecvTimeout | RecvOSError string | Recv bytes

type_synonym socket = "nat \<Rightarrow> sock_event"

text \<open>
  The loop \<^verbatim>\<open>while attempts: try: send; res = recv; break ...\<close>. Its state is the
  counter \<open>attempts\<close> and the payloads handed to \<^verbatim>\<open>sock.send\<close> so far. It leaves with
  \<open>Inr res\<close> (on \<^verbatim>\<open>break\<close>, or with the initial empty \<open>res\<close> when the counter is 0) or with
  \<open>Inl msg\<close> on the \<^verbatim>\<open>OSError\<close> branch. \<^verbatim>\<open>recv\<close> returns at most \<open>bufSize\<close> bytes of the
  datagram. A counter that starts negative never reaches 0, so the loop may run forever.
\<close>

partial_function (option) sendPayload_loop ::
  "socket \<Rightarrow> bytes \<Rightarrow> nat \<Rightarrow> int \<Rightarrow> bytes list \<Rightarrow> ((string + bytes) \<times> int \<times> bytes list) option"
where
  "sendPayload_loop sock payload bufSize attempts sent =
     (if attempts = 0 then Some (Inr [], attempts, sent)
      else (case sock (length sent) of
              Recv d \<Rightarrow> Some (Inr (take bufSize d), attempts, sent @ [payload])
            | SendTimeout \<Rightarrow> sendPayload_loop sock payload bufSize (attempts - 1) (sent @ [payload])
            | RecvTimeout \<Rightarrow> sendPayload_loop sock payload bufSize (attempts - 1) (sent @ [payload])
            | SendOSError msg \<Rightarrow> Some (Inl msg, attempts, sent @ [payload])
            | RecvOSError msg \<Rightarrow> Some (Inl msg, attempts, sent @ [payload])))"

declare sendPayload_loop.simps [code]

text \<open>The part after the loop: the empty reply, then the check for a server error.\<close>

definition sendPayload_reply :: "bytes \<Rightarrow> bytes outcome" where
  "sendPayload_reply res =
     (if length res = 0 then Exit 3 ''ERROR: No response from the server''
      else if length res = 4 then
        (let type = unpack_h (take 2 res); code = unpack_h (drop 2 res)
         in if type = 256
            then Exit 4 (''ERROR: Auth server returned an error. ['' @ str_int code @ ''] ''
                         @ getServerErrorMsg code)
            else Return res)
      else Return res)"

text \<open>
  \<^verbatim>\<open>sendPayload\<close>: the outcome, the counter when the loop was left, and the payloads
  sent. \<open>None\<close> is a loop that never ends.
\<close>

definition sendPayload ::
  "socket \<Rightarrow> bytes \<Rightarrow> nat \<Rightarrow> int \<Rightarrow> (bytes outcome \<times> int \<times> bytes list) option" where
  "sendPayload sock payload bufSize attempts =
     (case sendPayload_loop sock payload bufSize attempts [] of
        None \<Rightarrow> None
      | Some (Inl msg, a, sent) \<Rightarrow>
          Some (Exit 2 (''ERROR: Could not send and/or receive data. '' @ msg), a, sent)
      | Some (Inr res, a, sent) \<Rightarrow> Some (sendPayload_reply res, a, sent))"

text \<open>The two events the loop answers by counting down and sending again.\<close>

definition is_timeout :: "sock_event \<Rightarrow> bool" where
  "is_timeout e = (e = SendTimeout \<or> e = RecvTimeout)"

section \<open>The four requests\<close>

text \<open>
  Each \<^verbatim>\<open>send...\<close> function packs its request, calls \<^verbatim>\<open>sendPayload\<close> with the default
  buffer size 4096 and the default 5 attempts, and unpacks the reply. The packing is the
  constant with suffix \<open>_pack\<close>, the unpacking the one with suffix \<open>_unpack\<close>.
  \<^verbatim>\<open>struct.unpack\<close> raises \<^verbatim>\<open>struct.error\<close> unless the reply has exactly the length of
  the format.
\<close>

definition and_then :: "error + 'a \<Rightarrow> ('a \<Rightarrow> error + 'b) \<Rightarrow> error + 'b" where
  "and_then r f = (case r of Inl e \<Rightarrow> Inl e | Inr v \<Rightarrow> f v)"

definition returned :: "error + 'a \<Rightarrow> 'a outcome" where
  "returned r = (case r of Inl e \<Rightarrow> Raise e | Inr v \<Rightarrow> Return v)"

text \<open>\<^verbatim>\<open>b\<close> is a signed 8-bit field.\<close>

definition unpack_b :: "bytes \<Rightarrow> int" where
  "unpack_b b = sint (be_word b :: 8 word)"

subsection \<open>Individual token request\<close>

record IndividualTokenRequest =
  itr_type :: int
  itr_id :: string
  itr_nonce :: int

definition new_IndividualTokenRequest :: "string \<Rightarrow> int \<Rightarrow> IndividualTokenRequest" where
  "new_IndividualTokenRequest i nonce = \<lparr>itr_type = 1, itr_id = i, itr_nonce = nonce\<rparr>"

record IndividualTokenResponse =
  itres_type :: int
  itres_id :: string
  itres_nonce :: int
  itres_token :: string

definition getStringSAS :: "IndividualTokenResponse \<Rightarrow> string" where
  "getStringSAS r = itres_id r @ '':'' @ str_int (itres_nonce r) @ '':'' @ itres_token r"

text \<open>\<^verbatim>\<open>struct.pack("!h12si", itr.type, bytes(itr.id.ljust(12), encoding="ascii"), itr.nonce)\<close>\<close>

definition sendIndividualTokenRequest_pack :: "IndividualTokenRequest \<Rightarrow> error + bytes" where
  "sendIndividualTokenRequest_pack itr =
     and_then (ascii_encode (ljust (itr_id itr) 12)) (\<lambda>idb.
     and_then (pack_h (itr_type itr)) (\<lambda>t.
     and_then (pack_i (itr_nonce itr)) (\<lambda>n.
       Inr (t @ pack_s 12 idb @ n))))"

text \<open>
  \<^verbatim>\<open>raw = struct.unpack("!h12si64s", res)\<close>, then
  \<^verbatim>\<open>IndividualTokenResponse(raw[0], raw[1].decode("ascii").strip(), raw[2], raw[3].decode("ascii"))\<close>
\<close>

definition sendIndividualTokenRequest_unpack :: "bytes \<Rightarrow> error + IndividualTokenResponse" where
  "sendIndividualTokenRequest_unpack res =
     (if length res \<noteq> 82 then Inl StructError
      else
        and_then (ascii_decode (take 12 (drop 2 res))) (\<lambda>i.
        and_then (ascii_decode (take 64 (drop 18 res))) (\<lambda>token.
          Inr \<lparr>itres_type = unpack_h (take 2 res), itres_id = strip i,
               itres_nonce = unpack_i (take 4 (drop 14 res)), itres_token = token\<rparr>)))"

definition sendIndividualTokenRequest ::
  "socket \<Rightarrow> IndividualTokenRequest \<Rightarrow> (IndividualTokenResponse outcome \<times> bytes list) option" where
  "sendIndividualTokenRequest sock itr =
     (case sendIndividualTokenRequest_pack itr of
        Inl e \<Rightarrow> Some (Raise e, [])
      | Inr payload \<Rightarrow>
          (case sendPayload sock payload 4096 5 of
             None \<Rightarrow> None
           | Some (Return res, a, sent) \<Rightarrow>
               Some (returned (sendIndividualTokenRequest_unpack res), sent)
           | Some (Raise e, a, sent) \<Rightarrow> Some (Raise e, sent)
           | Some (Exit c line, a, sent) \<Rightarrow> Some (Exit c line, sent)))"

subsection \<open>Individual token validation\<close>

record IndividualTokenValidation =
  itv_type :: int
  itv_id :: string
  itv_nonce :: int
  itv_token :: string

definition new_IndividualTokenValidation ::
  "string \<Rightarrow> int \<Rightarrow> string \<Rightarrow> IndividualTokenValidation" where
  "new_IndividualTokenValidation i nonce token =
     \<lparr>itv_type = 3, itv_id = i, itv_nonce = nonce, itv_token = token\<rparr>"

record IndividualTokenStatus =
  its_type :: int
  its_id :: string
  its_nonce :: int
  its_token :: string
  its_status :: int

text \<open>
  \<^verbatim>\<open>struct.pack("!h12si64s", itv.type, bytes(itv.id.ljust(12), encoding="ascii"),
  itv.nonce, bytes(itv.token, encoding="ascii"))\<close>: the id is padded with spaces by
  \<^verbatim>\<open>ljust\<close>, the token is handed over as it is.
\<close>

definition sendIndividualTokenValidation_pack :: "IndividualTokenValidation \<Rightarrow> error + bytes" where
  "sendIndividualTokenValidation_pack itv =
     and_then (ascii_encode (ljust (itv_id itv) 12)) (\<lambda>idb.
     and_then (ascii_encode (itv_token itv)) (\<lambda>tb.
     and_then (pack_h (itv_type itv)) (\<lambda>t.
     and_then (pack_i (itv_nonce itv)) (\<lambda>n.
       Inr (t @ pack_s 12 idb @ n @ pack_s 64 tb)))))"

text \<open>
  \<^verbatim>\<open>raw = struct.unpack("!h12si64sb", res)\<close>, then \<^verbatim>\<open>IndividualTokenStatus(raw[0],
  raw[1].decode("ascii").strip(), raw[2], raw[3].decode("ascii"), raw[4])\<close>
\<close>

definition sendIndividualTokenValidation_unpack :: "bytes \<Rightarrow> error + IndividualTokenStatus" where
  "sendIndividualTokenValidation_unpack res =
     (if length res \<noteq> 83 then Inl StructError
      else
        and_then (ascii_decode (take 12 (drop 2 res))) (\<lambda>i.
        and_then (ascii_decode (take 64 (drop 18 res))) (\<lambda>token.
          Inr \<lparr>its_type = unpack_h (take 2 res), its_id = strip i,
               its_nonce = unpack_i (take 4 (drop 14 res)), its_token = token,
               its_status = unpack_b (drop 82 res)\<rparr>)))"

definition sendIndividualTokenValidation ::
  "socket \<Rightarrow> IndividualTokenValidation \<Rightarrow> (IndividualTokenStatus outcome \<times> bytes list) option" where
  "sendIndividualTokenValidation sock itv =
     (case sendIndividualTokenValidation_pack itv of
        Inl e \<Rightarrow> Some (Raise e, [])
      | Inr payload \<Rightarrow>
          (case sendPayload sock payload 4096 5 of
             None \<Rightarrow> None
           | Some (Return res, a, sent) \<Rightarrow>
               Some (returned (sendIndividualTokenValidation_unpack res), sent)
           | Some (Raise e, a, sent) \<Rightarrow> Some (Raise e, sent)
           | Some (Exit c line, a, sent) \<Rightarrow> Some (Exit c line, sent)))"

subsection \<open>Group token request\<close>

type_synonym sas = "string \<times> int \<times> string"

record GroupTokenRequest =
  gtr_type :: int
  gtr_n :: int
  gtr_group :: "sas list"

definition new_GroupTokenRequest :: "int \<Rightarrow> sas list \<Rightarrow> GroupTokenRequest" where
  "new_GroupTokenRequest n grp = \<lparr>gtr_type = 5, gtr_n = n, gtr_group = grp\<rparr>"

record GroupTokenResponse =
  gtres_type :: int
  gtres_n :: int
  gtres_group :: "sas list"
  gtres_token :: string

text \<open>
  One member:
  \<^verbatim>\<open>struct.pack("!12si64s", bytes(sas[0].ljust(12), encoding="ascii"), sas[1],
  bytes(sas[2], encoding="ascii"))\<close>
\<close>

definition pack_sas :: "sas \<Rightarrow> error + bytes" where
  "pack_sas s =
     (case s of (i, nonce, token) \<Rightarrow>
        and_then (ascii_encode (ljust i 12)) (\<lambda>idb.
        and_then (ascii_encode token) (\<lambda>tb.
        and_then (pack_i nonce) (\<lambda>n.
          Inr (pack_s 12 idb @ n @ pack_s 64 tb)))))"

text \<open>The loop \<^verbatim>\<open>for sas in gtr.group: sasChunk += struct.pack(...)\<close>.\<close>

fun sasChunk :: "bytes \<Rightarrow> sas list \<Rightarrow> error + bytes" where
  "sasChunk acc [] = Inr acc"
| "sasChunk acc (s # grp) =
     (case pack_sas s of Inl e \<Rightarrow> Inl e | Inr c \<Rightarrow> sasChunk (acc @ c) grp)"

text \<open>
  \<^verbatim>\<open>struct.pack(f"!hh{80*gtr.n}s", gtr.type, gtr.n, sasChunk)\<close>: with a negative \<open>n\<close>
  the format holds a minus sign and \<^verbatim>\<open>struct.error\<close> is raised; otherwise the chunk is cut
  or zero-filled to \<open>80 * n\<close> bytes by the \<^verbatim>\<open>s\<close> field.
\<close>

definition sendGroupTokenRequest_pack :: "GroupTokenRequest \<Rightarrow> error + bytes" where
  "sendGroupTokenRequest_pack gtr =
     and_then (sasChunk [] (gtr_group gtr)) (\<lambda>chunk.
       if gtr_n gtr < 0 then Inl StructError
       else
         and_then (pack_h (gtr_type gtr)) (\<lambda>t.
         and_then (pack_h (gtr_n gtr)) (\<lambda>n.
           Inr (t @ n @ pack_s (nat (80 * gtr_n gtr)) chunk))))"

text \<open>One member read back: \<^verbatim>\<open>struct.unpack("!12si64s", sas)\<close> and the two decodes.\<close>

definition unpack_sas :: "bytes \<Rightarrow> error + sas" where
  "unpack_sas b =
     (if length b \<noteq> 80 then Inl StructError
      else
        and_then (ascii_decode (take 12 b)) (\<lambda>i.
        and_then (ascii_decode (take 64 (drop 16 b))) (\<lambda>token.
          Inr (strip i, unpack_i (take 4 (drop 12 b)), token))))"

text \<open>The loop over the slices, appending to \<^verbatim>\<open>group\<close> (here \<open>grp\<close>).\<close>

fun unpack_group :: "sas list \<Rightarrow> bytes list \<Rightarrow> error + sas list" where
  "unpack_group grp [] = Inr grp"
| "unpack_group grp (b # bs) =
     (case unpack_sas b of Inl e \<Rightarrow> Inl e | Inr s \<Rightarrow> unpack_group (grp @ [s]) bs)"

text \<open>
  \<^verbatim>\<open>raw = struct.unpack(f"!hh{80*gtr.n}s64s", res)\<close>, the slices
  \<^verbatim>\<open>raw[2][80 * i : 80 * (i + 1)] for i in range(gtr.n)\<close>, and
  \<^verbatim>\<open>GroupTokenResponse(raw[0], raw[1], group, raw[3].decode("ascii"))\<close>. The number of
  members read is the request's \<open>n\<close>, not the reply's.
\<close>

definition sendGroupTokenRequest_unpack :: "int \<Rightarrow> bytes \<Rightarrow> error + GroupTokenResponse" where
  "sendGroupTokenRequest_unpack n res =
     (if n < 0 then Inl StructError
      else if int (length res) \<noteq> 4 + 80 * n + 64 then Inl StructError
      else
        (let raw2 = take (nat (80 * n)) (drop 4 res)
         in and_then (unpack_group [] (map (\<lambda>i. take 80 (drop (80 * i) raw2)) [0..<nat n]))
              (\<lambda>grp.
            and_then (ascii_decode (drop (4 + nat (80 * n)) res)) (\<lambda>token.
              Inr \<lparr>gtres_type = unpack_h (take 2 res),
                   gtres_n = unpack_h (take 2 (drop 2 res)),
                   gtres_group = grp, gtres_token = token\<rparr>))))"

definition sendGroupTokenRequest ::
  "socket \<Rightarrow> GroupTokenRequest \<Rightarrow> (GroupTokenResponse outcome \<times> bytes list) option" where
  "sendGroupTokenRequest sock gtr =
     (case sendGroupTokenRequest_pack gtr of
        Inl e \<Rightarrow> Some (Raise e, [])
      | Inr payload \<Rightarrow>
          (case sendPayload sock payload 4096 5 of
             None \<Rightarrow> None
           | Some (Return res, a, sent) \<Rightarrow>
               Some (returned (sendGroupTokenRequest_unpack (gtr_n gtr) res), sent)
           | Some (Raise e, a, sent) \<Rightarrow> Some (Raise e, sent)
           | Some (Exit c line, a, sent) \<Rightarrow> Some (Exit c line, sent)))"

subsection \<open>Group token validation\<close>

record GroupTokenValidation =
  gtv_type :: int
  gtv_n :: int
  gtv_group :: "sas list"
  gtv_token :: string

definition new_GroupTokenValidation :: "int \<Rightarrow> sas list \<Rightarrow> string \<Rightarrow> GroupTokenValidation" where
  "new_GroupTokenValidation n grp token =
     \<lparr>gtv_type = 7, gtv_n = n, gtv_group = grp, gtv_token = token\<rparr>"

record GroupTokenStatus =
  gts_type :: int
  gts_n :: int
  gts_group :: "sas list"
  gts_token :: string
  gts_status :: int

text \<open>
  The same loop over the members, then
  \<^verbatim>\<open>struct.pack(f"!hh{80*gtv.n}s64s", gtv.type, gtv.n, sasChunk, bytes(gtv.token,
  encoding="ascii"))\<close>: the token is encoded before \<^verbatim>\<open>struct.pack\<close> looks at the format.
\<close>

definition sendGroupTokenValidation_pack :: "GroupTokenValidation \<Rightarrow> error + bytes" where
  "sendGroupTokenValidation_pack gtv =
     and_then (sasChunk [] (gtv_group gtv)) (\<lambda>chunk.
     and_then (ascii_encode (gtv_token gtv)) (\<lambda>tb.
       if gtv_n gtv < 0 then Inl StructError
       else
         and_then (pack_h (gtv_type gtv)) (\<lambda>t.
         and_then (pack_h (gtv_n gtv)) (\<lambda>n.
           Inr (t @ n @ pack_s (nat (80 * gtv_n gtv)) chunk @ pack_s 64 tb)))))"

text \<open>
  \<^verbatim>\<open>raw = struct.unpack(f"!hh{80*gtv.n}s64sb", res)\<close>, the same slices, and
  \<^verbatim>\<open>GroupTokenStatus(raw[0], raw[1], group, raw[3].decode("ascii"), raw[4])\<close>.
\<close>

definition sendGroupTokenValidation_unpack :: "int \<Rightarrow> bytes \<Rightarrow> error + GroupTokenStatus" where
  "sendGroupTokenValidation_unpack n res =
     (if n < 0 then Inl StructError
      else if int (length res) \<noteq> 4 + 80 * n + 64 + 1 then Inl StructError
      else
        (let raw2 = take (nat (80 * n)) (drop 4 res)
         in and_then (unpack_group [] (map (\<lambda>i. take 80 (drop (80 * i) raw2)) [0..<nat n]))
              (\<lambda>grp.
            and_then (ascii_decode (take 64 (drop (4 + nat (80 * n)) res))) (\<lambda>token.
              Inr \<lparr>gts_type = unpack_h (take 2 res),
                   gts_n = unpack_h (take 2 (drop 2 res)),
                   gts_group = grp, gts_token = token,
                   gts_status = unpack_b (drop (4 + nat (80 * n) + 64) res)\<rparr>))))"

definition sendGroupTokenValidation ::
  "socket \<Rightarrow> GroupTokenValidation \<Rightarrow> (GroupTokenStatus outcome \<times> bytes list) option" where
  "sendGroupTokenValidation sock gtv =
     (case sendGroupTokenValidation_pack gtv of
        Inl e \<Rightarrow> Some (Raise e, [])
      | Inr payload \<Rightarrow>
          (case sendPayload sock payload 4096 5 of
             None \<Rightarrow> None
           | Some (Return res, a, sent) \<Rightarrow>
               Some (returned (sendGroupTokenValidation_unpack (gtv_n gtv) res), sent)
           | Some (Raise e, a, sent) \<Rightarrow> Some (Raise e, sent)
           | Some (Exit c line, a, sent) \<Rightarrow> Some (Exit c line, sent)))"

section \<open>The error table and the error reply\<close>

text \<open>
  C8. \<^verbatim>\<open>getServerErrorMsg\<close> maps the codes 1 to 5 to INVALID_MESSAGE_CODE,
  INCORRECT_MESSAGE_LENGTH, INVALID_PARAMETER, INVALID_SINGLE_TOKEN and ASCII_DECODE_ERROR,
  and every other integer (0, the negative ones, those above 5) to the unknown-code
  message. The 4-byte reply 01 00 00 03 (type 256, code 3) ends the exchange as a server
  error whose printed message names INVALID_PARAMETER.
\<close>

theorem getServerErrorMsg_table:
  "getServerErrorMsg 1 = ''INVALID_MESSAGE_CODE'' \<and>
   getServerErrorMsg 2 = ''INCORRECT_MESSAGE_LENGTH'' \<and>
   getServerErrorMsg 3 = ''INVALID_PARAMETER'' \<and>
   getServerErrorMsg 4 = ''INVALID_SINGLE_TOKEN'' \<and>
   getServerErrorMsg 5 = ''ASCII_DECODE_ERROR'' \<and>
   (\<forall>code. code < 1 \<or> 5 < code \<longrightarrow> getServerErrorMsg code = ''UNKNOWN_ERROR_CODE'') \<and>
   sendPayload_reply [0x01, 0x00, 0x00, 0x03] =
     Exit 4 (''ERROR: Auth server returned an error. [3] '' @ getServerErrorMsg 3)"
proof -
  have known: "getServerErrorMsg 1 = ''INVALID_MESSAGE_CODE''"
    "getServerErrorMsg 2 = ''INCORRECT_MESSAGE_LENGTH''"
    "getServerErrorMsg 3 = ''INVALID_PARAMETER''"
    "getServerErrorMsg 4 = ''INVALID_SINGLE_TOKEN''"
    "getServerErrorMsg 5 = ''ASCII_DECODE_ERROR''"
    by (simp_all add: getServerErrorMsg_def authServerErrorMsg_def)
  have unknown: "\<forall>code. code < 1 \<or> 5 < code \<longrightarrow> getServerErrorMsg code = ''UNKNOWN_ERROR_CODE''"
    by (simp add: getServerErrorMsg_def authServerErrorMsg_def)
  have reply: "sendPayload_reply [0x01, 0x00, 0x00, 0x03] =
     Exit 4 (''ERROR: Auth server returned an error. [3] '' @ getServerErrorMsg 3)"
    by code_simp
  from known unknown reply show ?thesis by blast
qed

theorem getServerErrorMsg_table_witness:
  "((0::int) < 1 \<or> 5 < (0::int)) \<and> getServerErrorMsg 0 = ''UNKNOWN_ERROR_CODE'' \<and>
   ((-3::int) < 1 \<or> 5 < (-3::int)) \<and> getServerErrorMsg (-3) = ''UNKNOWN_ERROR_CODE'' \<and>
   ((6::int) < 1 \<or> 5 < (6::int)) \<and> getServerErrorMsg 6 = ''UNKNOWN_ERROR_CODE''"
  using getServerErrorMsg_table by simp

section \<open>The retry loop\<close>

lemma loop_step_timeout:
  "attempts \<noteq> 0 \<Longrightarrow> is_timeout (sock (length sent)) \<Longrightarrow>
   sendPayload_loop sock payload bufSize attempts sent =
   sendPayload_loop sock payload bufSize (attempts - 1) (sent @ [payload])"
  by (subst sendPayload_loop.simps) (auto simp: is_timeout_def)

lemma loop_stop: "sendPayload_loop sock payload bufSize 0 sent = Some (Inr [], 0, sent)"
  by (subst sendPayload_loop.simps) simp

lemma loop_recv:
  "attempts \<noteq> 0 \<Longrightarrow> sock (length sent) = Recv d \<Longrightarrow>
   sendPayload_loop sock payload bufSize attempts sent =
   Some (Inr (take bufSize d), attempts, sent @ [payload])"
  by (subst sendPayload_loop.simps) simp

lemma loop_fault:
  "attempts \<noteq> 0 \<Longrightarrow>
   sock (length sent) = SendOSError msg \<or> sock (length sent) = RecvOSError msg \<Longrightarrow>
   sendPayload_loop sock payload bufSize attempts sent = Some (Inl msg, attempts, sent @ [payload])"
  by (subst sendPayload_loop.simps) auto

text \<open>
  \<open>k\<close> timeouts in a row, with a counter that does not reach 0 on the way (it is negative,
  or at least \<open>k\<close>), are \<open>k\<close> sends and \<open>k\<close> decrements.
\<close>

lemma loop_timeouts:
  "\<forall>i<k. is_timeout (sock (length sent + i)) \<Longrightarrow> attempts < 0 \<or> int k \<le> attempts \<Longrightarrow>
   sendPayload_loop sock payload bufSize attempts sent =
   sendPayload_loop sock payload bufSize (attempts - int k) (sent @ replicate k payload)"
proof (induction k arbitrary: attempts sent)
  case 0
  then show ?case by simp
next
  case (Suc k)
  from Suc.prems have ne: "attempts \<noteq> 0" by auto
  from Suc.prems(1) have t0: "is_timeout (sock (length sent))"
    by (metis add.right_neutral zero_less_Suc)
  have rest: "\<forall>i<k. is_timeout (sock (length (sent @ [payload]) + i))"
    using Suc.prems(1) by (metis Suc_less_eq add_Suc_shift length_append_singleton)
  have bud: "attempts - 1 < 0 \<or> int k \<le> attempts - 1" using Suc.prems(2) by auto
  have cnt: "attempts - 1 - int k = attempts - int (Suc k)" by simp
  have log: "(sent @ [payload]) @ replicate k payload = sent @ replicate (Suc k) payload" by simp
  have "sendPayload_loop sock payload bufSize attempts sent =
        sendPayload_loop sock payload bufSize (attempts - 1) (sent @ [payload])"
    using ne t0 by (rule loop_step_timeout)
  also have "\<dots> = sendPayload_loop sock payload bufSize (attempts - 1 - int k)
                     ((sent @ [payload]) @ replicate k payload)"
    using rest bud by (rule Suc.IH)
  finally show ?case unfolding cnt log .
qed

lemma loop_reaches:
  assumes "\<forall>i<k. is_timeout (sock i)" and "attempts < 0 \<or> int k \<le> attempts"
  shows "sendPayload_loop sock payload bufSize attempts [] =
         sendPayload_loop sock payload bufSize (attempts - int k) (replicate k payload)"
  using loop_timeouts [of k sock "[]" attempts payload bufSize] assms by simp

lemma sendPayload_all_timeouts:
  assumes "0 \<le> attempts" and "\<forall>i<nat attempts. is_timeout (sock i)"
  shows "sendPayload sock payload bufSize attempts =
         Some (Exit 3 ''ERROR: No response from the server'', 0, replicate (nat attempts) payload)"
proof -
  have "sendPayload_loop sock payload bufSize attempts [] =
        sendPayload_loop sock payload bufSize (attempts - int (nat attempts))
          (replicate (nat attempts) payload)"
    using assms by (intro loop_reaches) auto
  also have "\<dots> = Some (Inr [], 0, replicate (nat attempts) payload)"
    using assms(1) by (simp add: loop_stop)
  finally show ?thesis by (simp add: sendPayload_def sendPayload_reply_def)
qed

lemma sendPayload_first_reply:
  assumes "\<forall>i<k. is_timeout (sock i)" and "sock k = Recv d"
    and "attempts < 0 \<or> int k < attempts"
  shows "sendPayload sock payload bufSize attempts =
         Some (sendPayload_reply (take bufSize d), attempts - int k, replicate (Suc k) payload)"
proof -
  have ne: "attempts - int k \<noteq> 0" using assms(3) by auto
  have ev: "sock (length (replicate k payload)) = Recv d" using assms(2) by simp
  have "sendPayload_loop sock payload bufSize attempts [] =
        sendPayload_loop sock payload bufSize (attempts - int k) (replicate k payload)"
    using assms by (intro loop_reaches) auto
  also have "\<dots> = Some (Inr (take bufSize d), attempts - int k, replicate k payload @ [payload])"
    using ne ev by (rule loop_recv)
  finally show ?thesis by (simp add: sendPayload_def replicate_append_same)
qed

text \<open>
  With a negative counter the loop only ends on a reply or an \<^verbatim>\<open>OSError\<close>: on a socket
  that times out for ever, \<^verbatim>\<open>sendPayload\<close> does not return.
\<close>

lemma loop_negative_diverges_aux:
  assumes "sendPayload_loop sock payload bufSize attempts sent = Some y"
  shows "\<not> (attempts < 0 \<and> (\<forall>i. is_timeout (sock i)))"
proof (rule sendPayload_loop.raw_induct
    [where P = "\<lambda>sock payload bufSize attempts sent y.
                  \<not> (attempts < 0 \<and> (\<forall>i. is_timeout (sock i)))", OF _ assms])
  fix loop :: "socket \<Rightarrow> bytes \<Rightarrow> nat \<Rightarrow> int \<Rightarrow> bytes list
                \<Rightarrow> ((string + bytes) \<times> int \<times> bytes list) option"
  fix sock payload bufSize attempts sent y
  assume IH: "\<And>sock payload bufSize attempts sent y.
      loop sock payload bufSize attempts sent = Some y \<Longrightarrow>
      \<not> (attempts < 0 \<and> (\<forall>i. is_timeout (sock i)))"
  assume body: "(if attempts = 0 then Some (Inr [], attempts, sent)
      else case sock (length sent) of
             SendTimeout \<Rightarrow> loop sock payload bufSize (attempts - 1) (sent @ [payload])
           | SendOSError msg \<Rightarrow> Some (Inl msg, attempts, sent @ [payload])
           | RecvTimeout \<Rightarrow> loop sock payload bufSize (attempts - 1) (sent @ [payload])
           | RecvOSError msg \<Rightarrow> Some (Inl msg, attempts, sent @ [payload])
           | Recv d \<Rightarrow> Some (Inr (take bufSize d), attempts, sent @ [payload])) = Some y"
  show "\<not> (attempts < 0 \<and> (\<forall>i. is_timeout (sock i)))"
  proof
    assume a: "attempts < 0 \<and> (\<forall>i. is_timeout (sock i))"
    then have ne: "attempts \<noteq> 0" and t: "is_timeout (sock (length sent))" by auto
    from body ne t have "loop sock payload bufSize (attempts - 1) (sent @ [payload]) = Some y"
      by (auto simp: is_timeout_def)
    from IH [OF this] a show False by auto
  qed
qed

lemma sendPayload_negative_diverges:
  "attempts < 0 \<Longrightarrow> \<forall>i. is_timeout (sock i) \<Longrightarrow> sendPayload sock payload bufSize attempts = None"
proof -
  assume a: "attempts < 0" "\<forall>i. is_timeout (sock i)"
  have "sendPayload_loop sock payload bufSize attempts [] = None"
  proof (cases "sendPayload_loop sock payload bufSize attempts []")
    case None then show ?thesis .
  next
    case (Some y)
    from loop_negative_diverges_aux [OF Some] a show ?thesis by simp
  qed
  then show ?thesis by (simp add: sendPayload_def)
qed

text \<open>
  C6. When every attempt times out, the request is sent exactly \<open>attempts\<close> times (5 by
  default), the exchange then ends with the no-response outcome (exit status 3), and not
  with the channel-fault outcome (exit status 2).
\<close>

theorem sendPayload_exhausted:
  assumes "0 \<le> attempts" and "\<forall>i<nat attempts. is_timeout (sock i)"
  shows "sendPayload sock payload bufSize attempts =
           Some (Exit 3 ''ERROR: No response from the server'', 0,
                 replicate (nat attempts) payload) \<and>
         (\<forall>line. map_option fst (sendPayload sock payload bufSize attempts) \<noteq> Some (Exit 2 line))"
  using sendPayload_all_timeouts [OF assms] by simp

theorem sendPayload_exhausted_witness:
  "(0::int) \<le> 5 \<and> is_timeout ((\<lambda>_::nat. RecvTimeout) 0) \<and>
   is_timeout ((\<lambda>_::nat. RecvTimeout) 4) \<and>
   sendPayload (\<lambda>_. RecvTimeout) [0, 1] 4096 5 =
     Some (Exit 3 ''ERROR: No response from the server'', 0,
           [[0, 1], [0, 1], [0, 1], [0, 1], [0, 1]])"
  using sendPayload_exhausted [of 5 "\<lambda>_. RecvTimeout" "[0, 1]" 4096]
  by (simp add: is_timeout_def eval_nat_numeral)

text \<open>
  C7. When an attempt fails with an \<^verbatim>\<open>OSError\<close> that is not a timeout (the attempts
  before it having timed out, and the counter not yet used up), the exchange ends at once
  with the channel-fault outcome: that attempt's send is the last one, and the counter
  stays where the timeouts before it left it.
\<close>

theorem sendPayload_channel_fault:
  assumes "\<forall>i<k. is_timeout (sock i)"
    and "sock k = SendOSError msg \<or> sock k = RecvOSError msg"
    and "attempts < 0 \<or> int k < attempts"
  shows "sendPayload sock payload bufSize attempts =
         Some (Exit 2 (''ERROR: Could not send and/or receive data. '' @ msg),
               attempts - int k, replicate (Suc k) payload)"
proof -
  have ne: "attempts - int k \<noteq> 0" using assms(3) by auto
  have ev: "sock (length (replicate k payload)) = SendOSError msg \<or>
            sock (length (replicate k payload)) = RecvOSError msg"
    using assms(2) by simp
  have "sendPayload_loop sock payload bufSize attempts [] =
        sendPayload_loop sock payload bufSize (attempts - int k) (replicate k payload)"
    using assms by (intro loop_reaches) auto
  also have "\<dots> = Some (Inl msg, attempts - int k, replicate k payload @ [payload])"
    using ne ev by (rule loop_fault)
  finally show ?thesis by (simp add: sendPayload_def replicate_append_same)
qed

theorem sendPayload_channel_fault_witness:
  "is_timeout ((\<lambda>i::nat. if i < 2 then RecvTimeout
                 else if i = 2 then RecvOSError ''refused'' else Recv [0, 2]) 0) \<and>
   is_timeout ((\<lambda>i::nat. if i < 2 then RecvTimeout
                 else if i = 2 then RecvOSError ''refused'' else Recv [0, 2]) 1) \<and>
   ((5::int) < 0 \<or> int 2 < 5) \<and>
   sendPayload (\<lambda>i. if i < 2 then RecvTimeout
                     else if i = 2 then RecvOSError ''refused'' else Recv [0, 2]) [0, 1] 4096 5 =
     Some (Exit 2 ''ERROR: Could not send and/or receive data. refused'', 3,
           [[0, 1], [0, 1], [0, 1]])"
  using sendPayload_channel_fault [of 2 "\<lambda>i. if i < 2 then RecvTimeout
      else if i = 2 then RecvOSError ''refused'' else Recv [0, 2]" "''refused''" 5 "[0, 1]" 4096]
  by (simp add: is_timeout_def eval_nat_numeral)

text \<open>
  C9. When the reply to an attempt is a datagram of length 0, the exchange ends with the
  no-response outcome, the very outcome of a socket on which every attempt times out.
\<close>

theorem sendPayload_empty_reply:
  assumes "\<forall>i<k. is_timeout (sock i)" and "sock k = Recv []"
    and "attempts < 0 \<or> int k < attempts"
    and "0 \<le> budget" and "\<forall>i<nat budget. is_timeout (silent i)"
  shows "map_option fst (sendPayload sock payload bufSize attempts) =
           Some (Exit 3 ''ERROR: No response from the server'') \<and>
         map_option fst (sendPayload sock payload bufSize attempts) =
           map_option fst (sendPayload silent payload bufSize budget)"
proof -
  have a: "map_option fst (sendPayload sock payload bufSize attempts) =
           Some (Exit 3 ''ERROR: No response from the server'')"
    using sendPayload_first_reply [OF assms(1,2,3)] by (simp add: sendPayload_reply_def)
  have b: "map_option fst (sendPayload silent payload bufSize budget) =
           Some (Exit 3 ''ERROR: No response from the server'')"
    using sendPayload_all_timeouts [OF assms(4,5)] by simp
  show ?thesis unfolding a b by simp
qed

theorem sendPayload_empty_reply_witness:
  "is_timeout ((\<lambda>i::nat. if i < 1 then RecvTimeout else Recv []) 0) \<and>
   ((5::int) < 0 \<or> int 1 < 5) \<and> (0::int) \<le> 5 \<and>
   is_timeout ((\<lambda>_::nat. RecvTimeout) 0) \<and> is_timeout ((\<lambda>_::nat. RecvTimeout) 4) \<and>
   map_option fst (sendPayload (\<lambda>i. if i < 1 then RecvTimeout else Recv []) [0, 1] 4096 5) =
     Some (Exit 3 ''ERROR: No response from the server'') \<and>
   map_option fst (sendPayload (\<lambda>i. if i < 1 then RecvTimeout else Recv []) [0, 1] 4096 5) =
     map_option fst (sendPayload (\<lambda>_. RecvTimeout) [0, 1] 4096 5)"
proof -
  let ?sock = "\<lambda>i::nat. if i < 1 then RecvTimeout else Recv []"
  have h1: "\<forall>i<1. is_timeout (?sock i)" by (simp add: is_timeout_def)
  have h2: "?sock 1 = Recv []" by simp
  have h3: "(5::int) < 0 \<or> int 1 < 5" by simp
  have h4: "(0::int) \<le> 5" by simp
  have h5: "\<forall>i<nat 5. is_timeout ((\<lambda>_. RecvTimeout) i)" by (simp add: is_timeout_def)
  have h6: "is_timeout RecvTimeout" by (simp add: is_timeout_def)
  have h7: "is_timeout (?sock 0)" by (simp add: is_timeout_def)
  from sendPayload_empty_reply [OF h1 h2 h3 h4 h5, where payload = "[0, 1]" and bufSize = 4096]
    h3 h4 h6 h7
  show ?thesis by blast
qed

section \<open>Big-endian fields\<close>

lemma be_word_16: "(be_word [ucast (drop_bit 8 w), ucast w] :: 16 word) = w" for w :: "16 word"
  unfolding be_word_def
  apply simp
  apply (rule bit_word_eqI)
  apply (auto simp: bit_simps)
  done

lemma be_word_16_hi: "ucast (drop_bit 8 (be_word [a, b] :: 16 word)) = a"
  unfolding be_word_def
  apply simp
  apply (rule bit_word_eqI)
  apply (auto simp: bit_simps dest: bit_imp_le_length)
  done

lemma be_word_16_lo: "ucast (be_word [a, b] :: 16 word) = b"
  unfolding be_word_def
  apply simp
  apply (rule bit_word_eqI)
  apply (auto simp: bit_simps dest: bit_imp_le_length)
  done

lemma unpack_h_256: "unpack_h [a, b] = 256 \<longleftrightarrow> a = 1 \<and> b = 0"
proof
  assume "unpack_h [a, b] = 256"
  then have "sint (be_word [a, b] :: 16 word) = sint (256 :: 16 word)"
    by (simp add: unpack_h_def)
  then have e: "(be_word [a, b] :: 16 word) = 256" by (rule signed_word_eqI) 
  have "a = ucast (drop_bit 8 (be_word [a, b] :: 16 word))" by (simp add: be_word_16_hi)
  also have "\<dots> = 1" unfolding e by simp
  finally have a: "a = 1" .
  have "b = ucast (be_word [a, b] :: 16 word)" by (simp add: be_word_16_lo)
  also have "\<dots> = 0" unfolding e by simp
  finally have b: "b = 0" .
  from a b show "a = 1 \<and> b = 0" by simp
next
  assume "a = 1 \<and> b = 0"
  then show "unpack_h [a, b] = 256" by (simp add: unpack_h_def be_word_def)
qed

lemma length4: "length res = 4 \<longleftrightarrow> (\<exists>a b c d. res = [a, b, c, d])"
  by (auto simp: length_Suc_conv eval_nat_numeral)

lemma error_signature: "length res = 4 \<and> unpack_h (take 2 res) = 256 \<longleftrightarrow> (\<exists>c d. res = [1, 0, c, d])"
  by (auto simp: length4 unpack_h_256)

section \<open>The check for a server error\<close>

text \<open>
  C1 (as amended). The check after the loop ends the exchange as a server error exactly
  when the reply is 4 bytes long and its leading big-endian 16-bit field is 256, that is,
  when it is 01 00 followed by the two bytes of the code; the printed line then carries
  the code and its message. Every other non-empty reply (of another length, or of length 4
  with another leading field) is returned unchanged to the caller, which unpacks it. The
  empty reply is not returned: it ends the exchange with the no-response outcome.
\<close>

theorem sendPayload_reply_classes:
  "((\<exists>line. sendPayload_reply res = Exit 4 line) \<longleftrightarrow>
      length res = 4 \<and> unpack_h (take 2 res) = 256) \<and>
   (length res = 4 \<and> unpack_h (take 2 res) = 256 \<longleftrightarrow> (\<exists>c d. res = [1, 0, c, d])) \<and>
   (length res = 4 \<and> unpack_h (take 2 res) = 256 \<longrightarrow>
      sendPayload_reply res =
        Exit 4 (''ERROR: Auth server returned an error. ['' @ str_int (unpack_h (drop 2 res))
                @ ''] '' @ getServerErrorMsg (unpack_h (drop 2 res)))) \<and>
   (res \<noteq> [] \<and> \<not> (length res = 4 \<and> unpack_h (take 2 res) = 256) \<longrightarrow>
      sendPayload_reply res = Return res) \<and>
   (res = [] \<longrightarrow> sendPayload_reply res = Exit 3 ''ERROR: No response from the server'')"
proof -
  have a: "(\<exists>line. sendPayload_reply res = Exit 4 line) \<longleftrightarrow>
      length res = 4 \<and> unpack_h (take 2 res) = 256"
    by (auto simp: sendPayload_reply_def Let_def)
  have b: "length res = 4 \<and> unpack_h (take 2 res) = 256 \<longrightarrow>
      sendPayload_reply res =
        Exit 4 (''ERROR: Auth server returned an error. ['' @ str_int (unpack_h (drop 2 res))
                @ ''] '' @ getServerErrorMsg (unpack_h (drop 2 res)))"
    by (simp add: sendPayload_reply_def Let_def)
  have c: "res \<noteq> [] \<and> \<not> (length res = 4 \<and> unpack_h (take 2 res) = 256) \<longrightarrow>
      sendPayload_reply res = Return res"
    by (auto simp: sendPayload_reply_def Let_def)
  have d: "res = [] \<longrightarrow> sendPayload_reply res = Exit 3 ''ERROR: No response from the server''"
    by (simp add: sendPayload_reply_def)
  from a error_signature b c d show ?thesis by blast
qed

theorem sendPayload_reply_classes_witness:
  "length [1, 0, 0, 3 :: byte] = 4 \<and> unpack_h (take 2 [1, 0, 0, 3]) = 256 \<and>
   sendPayload_reply [1, 0, 0, 3] =
     Exit 4 ''ERROR: Auth server returned an error. [3] INVALID_PARAMETER'' \<and>
   length [0, 2, 0, 3 :: byte] = 4 \<and> unpack_h (take 2 [0, 2, 0, 3]) = 2 \<and>
   sendPayload_reply [0, 2, 0, 3] = Return [0, 2, 0, 3] \<and>
   sendPayload_reply [7] = Return [7]"
proof -
  have e1: "length [1, 0, 0, 3 :: byte] = 4 \<and> unpack_h (take 2 [1, 0, 0, 3]) = 256"
    by (simp add: unpack_h_def be_word_def)
  have e2: "str_int (unpack_h (drop 2 [1, 0, 0, 3])) = ''3''" by code_simp
  have e3: "getServerErrorMsg (unpack_h (drop 2 [1, 0, 0, 3])) = ''INVALID_PARAMETER''" by code_simp
  have e4: "length [0, 2, 0, 3 :: byte] = 4 \<and> unpack_h (take 2 [0, 2, 0, 3]) = 2"
    by (simp add: unpack_h_def be_word_def)
  from sendPayload_reply_classes [of "[1, 0, 0, 3]"] e1
  have r1: "sendPayload_reply [1, 0, 0, 3] =
     Exit 4 ''ERROR: Auth server returned an error. [3] INVALID_PARAMETER''"
    unfolding e2 e3 by simp
  from sendPayload_reply_classes [of "[0, 2, 0, 3]"] e4
  have r2: "sendPayload_reply [0, 2, 0, 3] = Return [0, 2, 0, 3]" by simp
  from sendPayload_reply_classes [of "[7]"]
  have r3: "sendPayload_reply [7] = Return [7]" by simp
  from e1 e4 r1 r2 r3 show ?thesis by blast
qed

text \<open>
  C1 as stated fails on the empty reply: its length is not 4, yet it is not handed on.
\<close>

theorem error_probe_counterexample:
  "length ([] :: bytes) \<noteq> 4 \<and> sendPayload_reply [] \<noteq> Return [] \<and>
   sendPayload_reply [] = Exit 3 ''ERROR: No response from the server''"
  by (simp add: sendPayload_reply_def)

section \<open>Field widths\<close>

lemma isascii_ljust: "isascii (ljust s w) = isascii s"
  by (auto simp: isascii_def ljust_def list_all_iff)

lemma ascii_bytes_ljust:
  "ascii_bytes (ljust s w) = ascii_bytes s @ replicate (w - length s) 32"
  by (simp add: ascii_bytes_def ljust_def)

lemma length_ascii_bytes: "length (ascii_bytes s) = length s"
  by (simp add: ascii_bytes_def)

lemma ascii_encode_Inr: "ascii_encode s = Inr b \<longleftrightarrow> isascii s \<and> b = ascii_bytes s"
  by (auto simp: ascii_encode_def)

lemma ascii_encode_Inl: "ascii_encode s = Inl e \<longleftrightarrow> \<not> isascii s \<and> e = UnicodeEncodeError"
  by (auto simp: ascii_encode_def)

lemma length_pack_h: "pack_h v = Inr b \<Longrightarrow> length b = 2"
  by (auto simp: pack_h_def Let_def split: if_splits)

lemma length_pack_i: "pack_i v = Inr b \<Longrightarrow> length b = 4"
  by (auto simp: pack_i_def Let_def split: if_splits)

lemma length_pack_s: "length (pack_s n b) = n"
  by (simp add: pack_s_def)

lemma pack_s_exact: "length b = n \<Longrightarrow> pack_s n b = b"
  by (simp add: pack_s_def)

lemma pack_s_short: "length b \<le> n \<Longrightarrow> pack_s n b = b @ replicate (n - length b) 0"
  by (simp add: pack_s_def)

lemma pack_s_long: "n \<le> length b \<Longrightarrow> pack_s n b = take n b"
  by (simp add: pack_s_def)

lemma and_then_Inr: "and_then r f = Inr y \<longleftrightarrow> (\<exists>v. r = Inr v \<and> f v = Inr y)"
  by (cases r) (simp_all add: and_then_def)

lemma and_then_simps: "and_then (Inr v) f = f v" "and_then (Inl e) f = Inl e"
  by (simp_all add: and_then_def)

section \<open>The individual token request\<close>

text \<open>
  C4 (as amended). Packing an individual token request raises \<^verbatim>\<open>UnicodeEncodeError\<close>
  whenever the id holds a non-ASCII character, and no bytes are produced. An ASCII id of
  more than 12 characters raises nothing: the \<^verbatim>\<open>12s\<close> field keeps its first 12 bytes, and
  the 18-byte request is produced.
\<close>

theorem pack_request_id:
  "(\<not> isascii (itr_id itr) \<longrightarrow>
      sendIndividualTokenRequest_pack itr = Inl UnicodeEncodeError) \<and>
   (isascii (itr_id itr) \<and> 12 < length (itr_id itr) \<and>
    pack_h (itr_type itr) = Inr t \<and> pack_i (itr_nonce itr) = Inr n \<longrightarrow>
      sendIndividualTokenRequest_pack itr = Inr (t @ take 12 (ascii_bytes (itr_id itr)) @ n) \<and>
      length (t @ take 12 (ascii_bytes (itr_id itr)) @ n) = 18)"
proof -
  have a: "\<not> isascii (itr_id itr) \<longrightarrow>
      sendIndividualTokenRequest_pack itr = Inl UnicodeEncodeError"
    by (simp add: sendIndividualTokenRequest_pack_def ascii_encode_def isascii_ljust and_then_simps)
  have b: "isascii (itr_id itr) \<and> 12 < length (itr_id itr) \<and>
    pack_h (itr_type itr) = Inr t \<and> pack_i (itr_nonce itr) = Inr n \<longrightarrow>
      sendIndividualTokenRequest_pack itr = Inr (t @ take 12 (ascii_bytes (itr_id itr)) @ n) \<and>
      length (t @ take 12 (ascii_bytes (itr_id itr)) @ n) = 18"
    by (auto simp: sendIndividualTokenRequest_pack_def ascii_encode_def isascii_ljust and_then_simps
        ljust_def pack_s_long length_ascii_bytes length_pack_h length_pack_i)
  from a b show ?thesis by blast
qed

theorem pack_request_id_witness:
  "sendIndividualTokenRequest_pack (new_IndividualTokenRequest [CHR ''j'', CHR 0xE9] 42) =
     Inl UnicodeEncodeError \<and>
   isascii ''abcdefghijklm'' \<and> 12 < length ''abcdefghijklm'' \<and>
   pack_h 1 = Inr [0, 1] \<and> pack_i 42 = Inr [0, 0, 0, 42] \<and>
   sendIndividualTokenRequest_pack (new_IndividualTokenRequest ''abcdefghijklm'' 42) =
     Inr ([0, 1] @ take 12 (ascii_bytes ''abcdefghijklm'') @ [0, 0, 0, 42])"
proof -
  have n1: "\<not> isascii (itr_id (new_IndividualTokenRequest [CHR ''j'', CHR 0xE9] 42))"
    by code_simp
  have h: "isascii (itr_id (new_IndividualTokenRequest ''abcdefghijklm'' 42)) \<and>
     12 < length (itr_id (new_IndividualTokenRequest ''abcdefghijklm'' 42)) \<and>
     pack_h (itr_type (new_IndividualTokenRequest ''abcdefghijklm'' 42)) = Inr [0, 1] \<and>
     pack_i (itr_nonce (new_IndividualTokenRequest ''abcdefghijklm'' 42)) = Inr [0, 0, 0, 42]"
    by code_simp
  have i: "itr_id (new_IndividualTokenRequest ''abcdefghijklm'' 42) = ''abcdefghijklm''"
    by (simp add: new_IndividualTokenRequest_def)
  have h': "isascii ''abcdefghijklm'' \<and> 12 < length ''abcdefghijklm'' \<and>
     pack_h 1 = Inr [0, 1] \<and> pack_i 42 = Inr [0, 0, 0, 42]"
    by code_simp
  from pack_request_id [of "new_IndividualTokenRequest [CHR ''j'', CHR 0xE9] 42"] n1
  have r1: "sendIndividualTokenRequest_pack (new_IndividualTokenRequest [CHR ''j'', CHR 0xE9] 42) =
     Inl UnicodeEncodeError" by blast
  from pack_request_id [of "new_IndividualTokenRequest ''abcdefghijklm'' 42" "[0, 1]" "[0, 0, 0, 42]"] h
  have r2: "sendIndividualTokenRequest_pack (new_IndividualTokenRequest ''abcdefghijklm'' 42) =
     Inr ([0, 1] @ take 12 (ascii_bytes ''abcdefghijklm'') @ [0, 0, 0, 42])"
    unfolding i by blast
  from r1 r2 h' show ?thesis by blast
qed

text \<open>C4 as stated fails on an id of 13 ASCII characters: the request is produced.\<close>

theorem long_id_counterexample:
  "length ''abcdefghijklm'' = 13 \<and>
   sendIndividualTokenRequest_pack (new_IndividualTokenRequest ''abcdefghijklm'' 42) =
     Inr ([0, 1] @ [97, 98, 99, 100, 101, 102, 103, 104, 105, 106, 107, 108] @ [0, 0, 0, 42])"
  by code_simp

text \<open>
  C5 (as amended). The request with id \<open>alice\<close> and nonce 42 packs to 18 bytes: type 1,
  \<open>alice\<close> and 7 spaces, the nonce 42 big-endian. The 82-byte reply with type 2, the same
  id field and nonce, and the token field \<open>T0K3N\<close> followed by 59 spaces unpacks to the id
  \<open>alice\<close>, the nonce 42 and the token field as it is, all 64 characters: the SAS string is
  \<open>alice:42:T0K3N\<close> followed by the 59 spaces. \<^verbatim>\<open>sendIndividualTokenRequest\<close> on a socket
  that delivers this reply sends those 18 bytes once and returns that response.
\<close>

theorem alice_scenario:
  "sendIndividualTokenRequest_pack (new_IndividualTokenRequest ''alice'' 42) =
     Inr ([0, 1] @ [97, 108, 105, 99, 101] @ replicate 7 32 @ [0, 0, 0, 42]) \<and>
   length ([0, 1] @ [97, 108, 105, 99, 101] @ replicate 7 32 @ [0, 0, 0, 42 :: byte]) = 18 \<and>
   ascii_encode ''alice'' = Inr [97, 108, 105, 99, 101] \<and>
   ascii_encode ''T0K3N'' = Inr [84, 48, 75, 51, 78] \<and>
   length ([0, 2] @ [97, 108, 105, 99, 101] @ replicate 7 32 @ [0, 0, 0, 42]
           @ [84, 48, 75, 51, 78] @ replicate 59 (32 :: byte)) = 82 \<and>
   sendIndividualTokenRequest_unpack
     ([0, 2] @ [97, 108, 105, 99, 101] @ replicate 7 32 @ [0, 0, 0, 42]
      @ [84, 48, 75, 51, 78] @ replicate 59 32) =
     Inr \<lparr>itres_type = 2, itres_id = ''alice'', itres_nonce = 42,
          itres_token = ''T0K3N'' @ replicate 59 (CHR '' '')\<rparr> \<and>
   map_sum id getStringSAS (sendIndividualTokenRequest_unpack
     ([0, 2] @ [97, 108, 105, 99, 101] @ replicate 7 32 @ [0, 0, 0, 42]
      @ [84, 48, 75, 51, 78] @ replicate 59 32)) =
     Inr (''alice:42:T0K3N'' @ replicate 59 (CHR '' '')) \<and>
   sendIndividualTokenRequest
     (\<lambda>_. Recv ([0, 2] @ [97, 108, 105, 99, 101] @ replicate 7 32 @ [0, 0, 0, 42]
                 @ [84, 48, 75, 51, 78] @ replicate 59 32))
     (new_IndividualTokenRequest ''alice'' 42) =
     Some (Return \<lparr>itres_type = 2, itres_id = ''alice'', itres_nonce = 42,
                   itres_token = ''T0K3N'' @ replicate 59 (CHR '' '')\<rparr>,
           [[0, 1] @ [97, 108, 105, 99, 101] @ replicate 7 32 @ [0, 0, 0, 42]])"
  by code_simp

text \<open>C5 as stated fails: the SAS string of that reply is not \<open>alice:42:T0K3N\<close>.\<close>

theorem alice_sas_counterexample:
  "map_sum id getStringSAS (sendIndividualTokenRequest_unpack
     ([0, 2] @ [97, 108, 105, 99, 101] @ replicate 7 32 @ [0, 0, 0, 42]
      @ [84, 48, 75, 51, 78] @ replicate 59 32)) \<noteq> Inr ''alice:42:T0K3N''"
  by code_simp

section \<open>\<^verbatim>\<open>strip\<close> and the ascii codec\<close>

lemma isspace_space: "isspace (CHR '' '')"
  by (simp add: isspace_def)

lemma strip_ljust: "strip (ljust s w) = strip s"
proof (cases "\<forall>c\<in>set s. isspace c")
  case True
  then have d1: "dropWhile isspace (s @ replicate (w - length s) (CHR '' '')) = []"
    by (auto simp: isspace_space)
  from True have d2: "dropWhile isspace s = []" by simp
  show ?thesis unfolding strip_def ljust_def d1 d2 by simp
next
  case False
  then obtain c where c: "c \<in> set s" "\<not> isspace c" by blast
  let ?sp = "replicate (w - length s) (CHR '' '')"
  have "dropWhile isspace (s @ ?sp) = dropWhile isspace s @ ?sp"
    using c by (rule dropWhile_append1)
  then have "rev (dropWhile isspace (s @ ?sp)) = ?sp @ rev (dropWhile isspace s)"
    by simp
  moreover have "dropWhile isspace (?sp @ rev (dropWhile isspace s)) =
                 dropWhile isspace (rev (dropWhile isspace s))"
    by (rule dropWhile_append2) (auto simp: isspace_space)
  ultimately show ?thesis by (simp add: strip_def ljust_def)
qed

lemma strip_ends:
  "strip s = [] \<or> (\<not> isspace (hd (strip s)) \<and> \<not> isspace (last (strip s)))"
proof (cases "strip s = []")
  case True
  then show ?thesis by simp
next
  case False
  let ?t = "dropWhile isspace s"
  let ?u = "dropWhile isspace (rev ?t)"
  have u: "strip s = rev ?u" by (simp add: strip_def)
  with False have une: "?u \<noteq> []" by simp
  then have "\<not> isspace (hd ?u)" by (rule hd_dropWhile)
  then have l: "\<not> isspace (last (strip s))" using une by (simp add: u last_rev)
  have "rev ?t = takeWhile isspace (rev ?t) @ ?u" by simp
  then have "?t = rev ?u @ rev (takeWhile isspace (rev ?t))"
    by (metis rev_append rev_rev_ident)
  then have "hd ?t = hd (rev ?u)" using une by (metis hd_append2 rev_is_Nil_conv)
  moreover have "?t \<noteq> []"
  proof
    assume e: "?t = []"
    have "?u = []" unfolding e by simp
    with une show False by simp
  qed
  then have "\<not> isspace (hd ?t)" by (rule hd_dropWhile)
  ultimately have "\<not> isspace (hd (strip s))" by (simp add: u)
  with l show ?thesis by simp
qed

lemma strip_id:
  "s = [] \<or> (\<not> isspace (hd s) \<and> \<not> isspace (last s)) \<Longrightarrow> strip s = s"
proof (cases "s = []")
  case True
  then show ?thesis by (simp add: strip_def)
next
  case False
  assume "s = [] \<or> (\<not> isspace (hd s) \<and> \<not> isspace (last s))"
  with False have h: "\<not> isspace (hd s)" and l: "\<not> isspace (last s)" by auto
  from h False have a: "dropWhile isspace s = s" by (simp add: dropWhile_eq_self_iff)
  from l False have "\<not> isspace (hd (rev s))" by (simp add: hd_rev)
  then have "dropWhile isspace (rev s) = rev s" by (simp add: dropWhile_eq_self_iff)
  with a show ?thesis by (simp add: strip_def)
qed

lemma strip_strip: "strip (strip s) = strip s"
  using strip_ends [of s] by (rule strip_id)

lemma ascii_decode_Inr:
  "ascii_decode b = Inr s \<Longrightarrow> isascii s \<and> ascii_bytes s = b \<and> length s = length b"
proof -
  assume a: "ascii_decode b = Inr s"
  then have lt: "\<forall>x\<in>set b. unat x < 128" and s: "s = map (\<lambda>x. char_of (unat x)) b"
    by (auto simp: ascii_decode_def list_all_iff split: if_splits)
  have 1: "(of_char (char_of (unat x) :: char) :: nat) = unat x" if "x \<in> set b" for x
  proof -
    from lt that have "unat x < 128" by blast
    then show ?thesis by (simp add: of_char_of)
  qed
  have "isascii s" unfolding isascii_def s using lt 1 by (simp add: list_all_iff)
  moreover have "ascii_bytes s = b" unfolding ascii_bytes_def s using 1 by (simp add: map_idI)
  moreover have "length s = length b" by (simp add: s)
  ultimately show ?thesis by simp
qed

lemma ascii_decode_bytes: "isascii s \<Longrightarrow> ascii_decode (ascii_bytes s) = Inr s"
proof -
  assume "isascii s"
  then have lt: "\<forall>c\<in>set s. (of_char c :: nat) < 128" by (simp add: isascii_def list_all_iff)
  have 1: "unat (of_nat (of_char c) :: byte) = of_char c" if "c \<in> set s" for c
  proof -
    from lt that have "(of_char c :: nat) < 128" by blast
    then show ?thesis by (simp add: unat_of_nat)
  qed
  have "list_all (\<lambda>x. unat x < 128) (ascii_bytes s)"
    using lt 1 by (simp add: ascii_bytes_def list_all_iff)
  moreover have "map (\<lambda>x. char_of (unat x)) (ascii_bytes s) = s"
    using 1 by (simp add: ascii_bytes_def map_idI)
  ultimately show ?thesis by (simp add: ascii_decode_def)
qed

lemma pack_s_ljust:
  "length s \<le> w \<Longrightarrow> pack_s w (ascii_bytes (ljust s w)) = ascii_bytes s @ replicate (w - length s) 32"
  by (simp add: pack_s_def ascii_bytes_ljust length_ascii_bytes)

lemma validation_pack_Inr:
  "sendIndividualTokenValidation_pack itv = Inr p \<Longrightarrow>
   \<exists>t n. length t = 2 \<and> length n = 4 \<and>
     p = t @ pack_s 12 (ascii_bytes (ljust (itv_id itv) 12)) @ n @ pack_s 64 (ascii_bytes (itv_token itv))"
  by (auto simp: sendIndividualTokenValidation_pack_def and_then_Inr ascii_encode_Inr
      dest: length_pack_h length_pack_i)

lemma request_pack_Inr:
  "sendIndividualTokenRequest_pack itr = Inr q \<Longrightarrow>
   \<exists>t n. length t = 2 \<and> length n = 4 \<and>
     q = t @ pack_s 12 (ascii_bytes (ljust (itr_id itr) 12)) @ n"
  by (auto simp: sendIndividualTokenRequest_pack_def and_then_Inr ascii_encode_Inr
      dest: length_pack_h length_pack_i)

lemma pack_sas_Inr:
  "pack_sas (i, nonce, token) = Inr c \<Longrightarrow>
   \<exists>n. pack_i nonce = Inr n \<and> length n = 4 \<and> isascii i \<and> isascii token \<and>
     c = pack_s 12 (ascii_bytes (ljust i 12)) @ n @ pack_s 64 (ascii_bytes token)"
  by (auto simp: pack_sas_def and_then_Inr ascii_encode_Inr isascii_ljust dest: length_pack_i)

lemma validation_pack_fields:
  assumes "sendIndividualTokenValidation_pack itv = Inr p"
    and "length (itv_id itv) \<le> 12" and "length (itv_token itv) \<le> 64"
  shows "length p = 82"
    and "take 12 (drop 2 p) = ascii_bytes (itv_id itv) @ replicate (12 - length (itv_id itv)) 32"
    and "drop 18 p = ascii_bytes (itv_token itv) @ replicate (64 - length (itv_token itv)) 0"
proof -
  from validation_pack_Inr [OF assms(1)] obtain t n where
    t: "length t = 2" and n: "length n = 4" and
    p: "p = t @ pack_s 12 (ascii_bytes (ljust (itv_id itv) 12)) @ n
            @ pack_s 64 (ascii_bytes (itv_token itv))"
    by blast
  show "length p = 82" by (simp add: p t n length_pack_s)
  show "take 12 (drop 2 p) = ascii_bytes (itv_id itv) @ replicate (12 - length (itv_id itv)) 32"
    using assms(2) by (simp add: p t n length_pack_s pack_s_ljust length_ascii_bytes)
  show "drop 18 p = ascii_bytes (itv_token itv) @ replicate (64 - length (itv_token itv)) 0"
    using assms(3) by (simp add: p t n length_pack_s pack_s_short length_ascii_bytes)
qed

lemma request_pack_fields:
  assumes "sendIndividualTokenRequest_pack itr = Inr q" and "length (itr_id itr) \<le> 12"
  shows "length q = 18"
    and "take 12 (drop 2 q) = ascii_bytes (itr_id itr) @ replicate (12 - length (itr_id itr)) 32"
proof -
  from request_pack_Inr [OF assms(1)] obtain t n where
    t: "length t = 2" and n: "length n = 4" and
    q: "q = t @ pack_s 12 (ascii_bytes (ljust (itr_id itr) 12)) @ n"
    by blast
  show "length q = 18" by (simp add: q t n length_pack_s)
  show "take 12 (drop 2 q) = ascii_bytes (itr_id itr) @ replicate (12 - length (itr_id itr)) 32"
    using assms(2) by (simp add: q t n length_pack_s pack_s_ljust length_ascii_bytes)
qed

lemma pack_sas_fields:
  assumes "pack_sas (i, nonce, token) = Inr c" and "length i \<le> 12" and "length token \<le> 64"
  shows "length c = 80"
    and "take 12 c = ascii_bytes i @ replicate (12 - length i) 32"
    and "drop 16 c = ascii_bytes token @ replicate (64 - length token) 0"
proof -
  from pack_sas_Inr [OF assms(1)] obtain n where n: "length n = 4" and
    c: "c = pack_s 12 (ascii_bytes (ljust i 12)) @ n @ pack_s 64 (ascii_bytes token)"
    by blast
  show "length c = 80" by (simp add: c n length_pack_s)
  show "take 12 c = ascii_bytes i @ replicate (12 - length i) 32"
    using assms(2) by (simp add: c n length_pack_s pack_s_ljust length_ascii_bytes)
  show "drop 16 c = ascii_bytes token @ replicate (64 - length token) 0"
    using assms(3) by (simp add: c n length_pack_s pack_s_short length_ascii_bytes)
qed

lemma validation_unpack_fields:
  assumes "sendIndividualTokenValidation_unpack res = Inr st"
  shows "\<exists>i. ascii_decode (take 12 (drop 2 res)) = Inr i \<and> its_id st = strip i"
    and "strip (its_id st) = its_id st"
    and "length (its_token st) = 64"
    and "ascii_bytes (its_token st) = take 64 (drop 18 res)"
proof -
  from assms obtain i token where len: "length res = 83"
    and i: "ascii_decode (take 12 (drop 2 res)) = Inr i"
    and tk: "ascii_decode (take 64 (drop 18 res)) = Inr token"
    and st: "its_id st = strip i" "its_token st = token"
    by (auto simp: sendIndividualTokenValidation_unpack_def and_then_Inr split: if_splits)
  show "\<exists>i. ascii_decode (take 12 (drop 2 res)) = Inr i \<and> its_id st = strip i"
    using i st by blast
  show "strip (its_id st) = its_id st" by (simp add: st strip_strip)
  from ascii_decode_Inr [OF tk] len
  show "length (its_token st) = 64" and "ascii_bytes (its_token st) = take 64 (drop 18 res)"
    by (simp_all add: st)
qed

lemma request_unpack_fields:
  assumes "sendIndividualTokenRequest_unpack res = Inr rs"
  shows "\<exists>i. ascii_decode (take 12 (drop 2 res)) = Inr i \<and> itres_id rs = strip i"
    and "strip (itres_id rs) = itres_id rs"
    and "length (itres_token rs) = 64"
    and "ascii_bytes (itres_token rs) = drop 18 res"
proof -
  from assms obtain i token where len: "length res = 82"
    and i: "ascii_decode (take 12 (drop 2 res)) = Inr i"
    and tk: "ascii_decode (take 64 (drop 18 res)) = Inr token"
    and rs: "itres_id rs = strip i" "itres_token rs = token"
    by (auto simp: sendIndividualTokenRequest_unpack_def and_then_Inr split: if_splits)
  show "\<exists>i. ascii_decode (take 12 (drop 2 res)) = Inr i \<and> itres_id rs = strip i"
    using i rs by blast
  show "strip (itres_id rs) = itres_id rs" by (simp add: rs strip_strip)
  from ascii_decode_Inr [OF tk] len
  show "length (itres_token rs) = 64" and "ascii_bytes (itres_token rs) = drop 18 res"
    by (simp_all add: rs)
qed

lemma unpack_sas_fields:
  assumes "unpack_sas b = Inr (i, nonce, token)"
  shows "strip i = i" and "length token = 64" and "ascii_bytes token = drop 16 b"
proof -
  from assms obtain i' where len: "length b = 80"
    and tk: "ascii_decode (take 64 (drop 16 b)) = Inr token"
    and i: "i = strip i'"
    by (auto simp: unpack_sas_def and_then_Inr split: if_splits)
  show "strip i = i" by (simp add: i strip_strip)
  from ascii_decode_Inr [OF tk] len
  show "length token = 64" and "ascii_bytes token = drop 16 b" by simp_all
qed

lemma group_validation_pack_token:
  assumes "sendGroupTokenValidation_pack gtv = Inr g" and "length (gtv_token gtv) \<le> 64"
  shows "drop (length g - 64) g =
         ascii_bytes (gtv_token gtv) @ replicate (64 - length (gtv_token gtv)) 0"
proof -
  from assms(1) obtain chunk t n where
    g: "g = t @ n @ pack_s (nat (80 * gtv_n gtv)) chunk @ pack_s 64 (ascii_bytes (gtv_token gtv))"
    by (auto simp: sendGroupTokenValidation_pack_def and_then_Inr ascii_encode_Inr
        split: if_splits)
  have "drop (length g - 64) g = pack_s 64 (ascii_bytes (gtv_token gtv))"
    unfolding g by (simp add: length_pack_s)
  then show ?thesis using assms(2) by (simp add: pack_s_short length_ascii_bytes)
qed

lemma group_validation_unpack_token:
  assumes "sendGroupTokenValidation_unpack n res = Inr gts"
  shows "length (gts_token gts) = 64"
    and "ascii_bytes (gts_token gts) = take 64 (drop (4 + nat (80 * n)) res)"
proof -
  from assms obtain token where n: "0 \<le> n" and len: "int (length res) = 4 + 80 * n + 64 + 1"
    and tk: "ascii_decode (take 64 (drop (4 + nat (80 * n)) res)) = Inr token"
    and g: "gts_token gts = token"
    by (auto simp: sendGroupTokenValidation_unpack_def Let_def and_then_Inr split: if_splits)
  from len n have "length res = 4 + nat (80 * n) + 64 + 1" by linarith
  with ascii_decode_Inr [OF tk]
  show "length (gts_token gts) = 64"
    and "ascii_bytes (gts_token gts) = take 64 (drop (4 + nat (80 * n)) res)"
    by (simp_all add: g)
qed

section \<open>Padding and trimming of the ASCII fields\<close>

text \<open>
  C2 (as amended). On packing, an id of at most 12 characters fills its 12-byte field
  followed by spaces (from \<^verbatim>\<open>ljust\<close>), in the individual request, the individual
  validation and each group member; a token of at most 64 characters (a member's, the
  individual validation's, the group validation's) fills its 64-byte field followed by
  zero bytes (from the \<^verbatim>\<open>64s\<close> format), not by spaces. On unpacking,
  the id is the field's text with leading and trailing whitespace removed; the token is
  the field's text as it is, all 64 characters, padding included.
\<close>

theorem ascii_fields:
  "(sendIndividualTokenValidation_pack itv = Inr p \<and>
    length (itv_id itv) \<le> 12 \<and> length (itv_token itv) \<le> 64 \<longrightarrow>
      length p = 82 \<and>
      take 12 (drop 2 p) = ascii_bytes (itv_id itv) @ replicate (12 - length (itv_id itv)) 0x20 \<and>
      drop 18 p = ascii_bytes (itv_token itv) @ replicate (64 - length (itv_token itv)) 0x00) \<and>
   (sendIndividualTokenRequest_pack itr = Inr q \<and> length (itr_id itr) \<le> 12 \<longrightarrow>
      length q = 18 \<and>
      take 12 (drop 2 q) = ascii_bytes (itr_id itr) @ replicate (12 - length (itr_id itr)) 0x20) \<and>
   (pack_sas (i, nonce, token) = Inr c \<and> length i \<le> 12 \<and> length token \<le> 64 \<longrightarrow>
      length c = 80 \<and>
      take 12 c = ascii_bytes i @ replicate (12 - length i) 0x20 \<and>
      drop 16 c = ascii_bytes token @ replicate (64 - length token) 0x00) \<and>
   (sendIndividualTokenValidation_unpack res = Inr st \<longrightarrow>
      (\<exists>f. ascii_decode (take 12 (drop 2 res)) = Inr f \<and> its_id st = strip f) \<and>
      strip (its_id st) = its_id st \<and>
      length (its_token st) = 64 \<and> ascii_bytes (its_token st) = take 64 (drop 18 res)) \<and>
   (sendIndividualTokenRequest_unpack res' = Inr rs \<longrightarrow>
      (\<exists>f. ascii_decode (take 12 (drop 2 res')) = Inr f \<and> itres_id rs = strip f) \<and>
      strip (itres_id rs) = itres_id rs \<and>
      length (itres_token rs) = 64 \<and> ascii_bytes (itres_token rs) = drop 18 res') \<and>
   (unpack_sas b = Inr (i', nonce', token') \<longrightarrow>
      strip i' = i' \<and> length token' = 64 \<and> ascii_bytes token' = drop 16 b) \<and>
   (sendGroupTokenValidation_pack gtv = Inr g \<and> length (gtv_token gtv) \<le> 64 \<longrightarrow>
      drop (length g - 64) g =
        ascii_bytes (gtv_token gtv) @ replicate (64 - length (gtv_token gtv)) 0x00) \<and>
   (sendGroupTokenValidation_unpack m res'' = Inr gts \<longrightarrow>
      length (gts_token gts) = 64 \<and>
      ascii_bytes (gts_token gts) = take 64 (drop (4 + nat (80 * m)) res''))"
proof (intro conjI impI)
  assume h: "sendIndividualTokenValidation_pack itv = Inr p \<and>
    length (itv_id itv) \<le> 12 \<and> length (itv_token itv) \<le> 64"
  then have h1: "sendIndividualTokenValidation_pack itv = Inr p"
    and h2: "length (itv_id itv) \<le> 12" and h3: "length (itv_token itv) \<le> 64"
    by simp_all
  show "length p = 82" by (rule validation_pack_fields(1) [OF h1 h2 h3])
  show "take 12 (drop 2 p) =
        ascii_bytes (itv_id itv) @ replicate (12 - length (itv_id itv)) 0x20"
    by (rule validation_pack_fields(2) [OF h1 h2 h3])
  show "drop 18 p = ascii_bytes (itv_token itv) @ replicate (64 - length (itv_token itv)) 0x00"
    by (rule validation_pack_fields(3) [OF h1 h2 h3])
next
  assume h: "sendIndividualTokenRequest_pack itr = Inr q \<and> length (itr_id itr) \<le> 12"
  then have h1: "sendIndividualTokenRequest_pack itr = Inr q"
    and h2: "length (itr_id itr) \<le> 12" by simp_all
  show "length q = 18" by (rule request_pack_fields(1) [OF h1 h2])
  show "take 12 (drop 2 q) =
        ascii_bytes (itr_id itr) @ replicate (12 - length (itr_id itr)) 0x20"
    by (rule request_pack_fields(2) [OF h1 h2])
next
  assume h: "pack_sas (i, nonce, token) = Inr c \<and> length i \<le> 12 \<and> length token \<le> 64"
  then have h1: "pack_sas (i, nonce, token) = Inr c"
    and h2: "length i \<le> 12" and h3: "length token \<le> 64" by simp_all
  show "length c = 80" by (rule pack_sas_fields(1) [OF h1 h2 h3])
  show "take 12 c = ascii_bytes i @ replicate (12 - length i) 0x20"
    by (rule pack_sas_fields(2) [OF h1 h2 h3])
  show "drop 16 c = ascii_bytes token @ replicate (64 - length token) 0x00"
    by (rule pack_sas_fields(3) [OF h1 h2 h3])
next
  assume h: "sendIndividualTokenValidation_unpack res = Inr st"
  show "\<exists>f. ascii_decode (take 12 (drop 2 res)) = Inr f \<and> its_id st = strip f"
    by (rule validation_unpack_fields(1) [OF h])
  show "strip (its_id st) = its_id st" by (rule validation_unpack_fields(2) [OF h])
  show "length (its_token st) = 64" by (rule validation_unpack_fields(3) [OF h])
  show "ascii_bytes (its_token st) = take 64 (drop 18 res)"
    by (rule validation_unpack_fields(4) [OF h])
next
  assume h: "sendIndividualTokenRequest_unpack res' = Inr rs"
  show "\<exists>f. ascii_decode (take 12 (drop 2 res')) = Inr f \<and> itres_id rs = strip f"
    by (rule request_unpack_fields(1) [OF h])
  show "strip (itres_id rs) = itres_id rs" by (rule request_unpack_fields(2) [OF h])
  show "length (itres_token rs) = 64" by (rule request_unpack_fields(3) [OF h])
  show "ascii_bytes (itres_token rs) = drop 18 res'"
    by (rule request_unpack_fields(4) [OF h])
next
  assume h: "unpack_sas b = Inr (i', nonce', token')"
  show "strip i' = i'" by (rule unpack_sas_fields(1) [OF h])
  show "length token' = 64" by (rule unpack_sas_fields(2) [OF h])
  show "ascii_bytes token' = drop 16 b" by (rule unpack_sas_fields(3) [OF h])
next
  assume h: "sendGroupTokenValidation_pack gtv = Inr g \<and> length (gtv_token gtv) \<le> 64"
  then have h1: "sendGroupTokenValidation_pack gtv = Inr g"
    and h2: "length (gtv_token gtv) \<le> 64" by simp_all
  show "drop (length g - 64) g =
        ascii_bytes (gtv_token gtv) @ replicate (64 - length (gtv_token gtv)) 0x00"
    by (rule group_validation_pack_token [OF h1 h2])
next
  assume h: "sendGroupTokenValidation_unpack m res'' = Inr gts"
  show "length (gts_token gts) = 64" by (rule group_validation_unpack_token(1) [OF h])
  show "ascii_bytes (gts_token gts) = take 64 (drop (4 + nat (80 * m)) res'')"
    by (rule group_validation_unpack_token(2) [OF h])
qed

theorem ascii_fields_witness:
  "sendIndividualTokenValidation_pack (new_IndividualTokenValidation ''alice'' 42 ''T0K3N'') =
     Inr ([0, 3] @ ascii_bytes ''alice'' @ replicate 7 0x20 @ [0, 0, 0, 42]
          @ ascii_bytes ''T0K3N'' @ replicate 59 0x00) \<and>
   length ''alice'' \<le> 12 \<and> length ''T0K3N'' \<le> 64 \<and>
   take 12 (drop 2 ([0, 3] @ ascii_bytes ''alice'' @ replicate 7 0x20 @ [0, 0, 0, 42]
          @ ascii_bytes ''T0K3N'' @ replicate 59 0x00)) =
     ascii_bytes ''alice'' @ replicate (12 - length ''alice'') 0x20 \<and>
   drop 18 ([0, 3] @ ascii_bytes ''alice'' @ replicate 7 0x20 @ [0, 0, 0, 42]
          @ ascii_bytes ''T0K3N'' @ replicate 59 0x00) =
     ascii_bytes ''T0K3N'' @ replicate (64 - length ''T0K3N'') 0x00 \<and>
   sendIndividualTokenValidation_unpack
     ([0, 4] @ ascii_bytes ''alice'' @ replicate 7 0x20 @ [0, 0, 0, 42]
      @ ascii_bytes ''T0K3N'' @ replicate 59 0x20 @ [1]) =
     Inr \<lparr>its_type = 4, its_id = ''alice'', its_nonce = 42,
          its_token = ''T0K3N'' @ replicate 59 (CHR '' ''), its_status = 1\<rparr> \<and>
   length (its_token \<lparr>its_type = 4, its_id = ''alice'', its_nonce = 42,
          its_token = ''T0K3N'' @ replicate 59 (CHR '' ''), its_status = 1\<rparr>) = 64"
proof -
  let ?itv = "new_IndividualTokenValidation ''alice'' 42 ''T0K3N''"
  let ?p = "[0, 3] @ ascii_bytes ''alice'' @ replicate 7 0x20 @ [0, 0, 0, 42]
          @ ascii_bytes ''T0K3N'' @ replicate 59 (0x00 :: byte)"
  let ?res = "[0, 4] @ ascii_bytes ''alice'' @ replicate 7 0x20 @ [0, 0, 0, 42]
      @ ascii_bytes ''T0K3N'' @ replicate 59 0x20 @ [1 :: byte]"
  let ?st = "\<lparr>its_type = 4, its_id = ''alice'', its_nonce = 42,
          its_token = ''T0K3N'' @ replicate 59 (CHR '' ''), its_status = 1\<rparr>"
  have h1: "sendIndividualTokenValidation_pack ?itv = Inr ?p" by code_simp
  have e1: "itv_id ?itv = ''alice''" and e2: "itv_token ?itv = ''T0K3N''"
    by (simp_all add: new_IndividualTokenValidation_def)
  have h2: "length ''alice'' \<le> 12 \<and> length ''T0K3N'' \<le> 64" by simp
  have h3: "sendIndividualTokenValidation_unpack ?res = Inr ?st" by code_simp
  from ascii_fields [of ?itv ?p _ _ _ _ _ _ ?res ?st] h1 h2 h3
  have "take 12 (drop 2 ?p) = ascii_bytes ''alice'' @ replicate (12 - length ''alice'') 0x20 \<and>
        drop 18 ?p = ascii_bytes ''T0K3N'' @ replicate (64 - length ''T0K3N'') 0x00 \<and>
        length (its_token ?st) = 64"
    unfolding e1 e2 by blast
  with h1 h2 h3 show ?thesis by blast
qed

text \<open>
  C2 as stated fails on the token \<open>T0K3N\<close>: it is packed followed by 59 zero bytes, not
  spaces, and a token field holding \<open>T0K3N\<close> and 59 spaces is unpacked with its spaces.
\<close>

theorem token_padding_counterexample:
  "sendIndividualTokenValidation_pack (new_IndividualTokenValidation ''alice'' 42 ''T0K3N'') =
     Inr ([0, 3] @ ascii_bytes ''alice'' @ replicate 7 0x20 @ [0, 0, 0, 42]
          @ ascii_bytes ''T0K3N'' @ replicate 59 0x00) \<and>
   sendIndividualTokenValidation_pack (new_IndividualTokenValidation ''alice'' 42 ''T0K3N'') \<noteq>
     Inr ([0, 3] @ ascii_bytes ''alice'' @ replicate 7 0x20 @ [0, 0, 0, 42]
          @ ascii_bytes ''T0K3N'' @ replicate 59 0x20) \<and>
   map_sum id its_token (sendIndividualTokenValidation_unpack
     ([0, 4] @ ascii_bytes ''alice'' @ replicate 7 0x20 @ [0, 0, 0, 42]
      @ ascii_bytes ''T0K3N'' @ replicate 59 0x20 @ [1])) =
     Inr (''T0K3N'' @ replicate 59 (CHR '' ''))"
  by code_simp

section \<open>The group token request\<close>

subsection \<open>The chunk of the members\<close>

lemma length_pack_sas: "pack_sas s = Inr c \<Longrightarrow> length c = 80"
proof -
  assume a: "pack_sas s = Inr c"
  obtain i nonce token where s: "s = (i, nonce, token)" by (cases s) auto
  from pack_sas_Inr [OF a [unfolded s]] obtain n where "length n = 4"
    "c = pack_s 12 (ascii_bytes (ljust i 12)) @ n @ pack_s 64 (ascii_bytes token)" by blast
  then show ?thesis by (simp add: length_pack_s)
qed

lemma sasChunk_chunks:
  "list_all2 (\<lambda>s c. pack_sas s = Inr c) grp cs \<Longrightarrow> sasChunk acc grp = Inr (acc @ concat cs)"
proof (induction grp arbitrary: acc cs)
  case Nil
  then show ?case by simp
next
  case (Cons s grp)
  from Cons.prems obtain c cs' where cs: "cs = c # cs'" and c: "pack_sas s = Inr c"
    and rest: "list_all2 (\<lambda>s c. pack_sas s = Inr c) grp cs'"
    by (auto simp: list_all2_Cons1)
  show ?case using Cons.IH [OF rest, of "acc @ c"] by (simp add: c cs)
qed

lemma sasChunk_Inr:
  "sasChunk acc grp = Inr chunk \<Longrightarrow>
   \<exists>cs. list_all2 (\<lambda>s c. pack_sas s = Inr c) grp cs \<and> chunk = acc @ concat cs"
proof (induction grp arbitrary: acc)
  case Nil
  then show ?case by simp
next
  case (Cons s grp)
  from Cons.prems obtain c where c: "pack_sas s = Inr c"
    and r: "sasChunk (acc @ c) grp = Inr chunk"
    by (auto split: sum.splits)
  from Cons.IH [OF r] obtain cs where "list_all2 (\<lambda>s c. pack_sas s = Inr c) grp cs"
    "chunk = (acc @ c) @ concat cs" by blast
  then have "list_all2 (\<lambda>s c. pack_sas s = Inr c) (s # grp) (c # cs) \<and>
             chunk = acc @ concat (c # cs)" using c by simp
  then show ?case by blast
qed

lemma length_concat_80:
  "\<forall>c\<in>set cs. length c = 80 \<Longrightarrow> length (concat cs) = 80 * length cs"
  by (induction cs) simp_all

lemma length_sasChunk:
  assumes "sasChunk [] grp = Inr chunk"
  shows "length chunk = 80 * length grp"
proof -
  from sasChunk_Inr [OF assms] obtain cs where
    cs: "list_all2 (\<lambda>s c. pack_sas s = Inr c) grp cs" and chunk: "chunk = concat cs" by auto
  have "\<forall>c\<in>set cs. length c = 80"
  proof
    fix c assume "c \<in> set cs"
    then obtain i where "i < length cs" "cs ! i = c" by (auto simp: in_set_conv_nth)
    with cs have "pack_sas (grp ! i) = Inr c" by (auto simp: list_all2_conv_all_nth)
    then show "length c = 80" by (rule length_pack_sas)
  qed
  moreover have "length cs = length grp" using cs by (simp add: list_all2_lengthD)
  ultimately show ?thesis by (simp add: chunk length_concat_80)
qed

lemma pack_h_range: "- 32768 \<le> v \<Longrightarrow> v \<le> 32767 \<Longrightarrow> \<exists>b. pack_h v = Inr b"
  by (simp add: pack_h_def Let_def)

lemma group_pack_ok:
  assumes chunk: "sasChunk [] grp = Inr chunk"
    and n: "0 \<le> n" "n \<le> 32767"
    and h: "pack_h n = Inr nb"
  shows "sendGroupTokenRequest_pack (new_GroupTokenRequest n grp) =
           Inr ([0, 5] @ nb @ pack_s (nat (80 * n)) chunk)"
proof -
  have t: "pack_h 5 = Inr [0, 5]" by (simp add: pack_h_def)
  show ?thesis using n
    by (simp add: sendGroupTokenRequest_pack_def new_GroupTokenRequest_def chunk h t and_then_simps)
qed

text \<open>
  C10 (as amended). Packing a group request does not depend on the member list having \<open>n\<close>
  entries: whenever the members themselves pack (ASCII ids and tokens, nonces of 32 bits)
  and \<open>n\<close> fits the header (\<open>0 \<le> n \<le> 32767\<close>), the request is produced and has
  \<open>4 + 80 * n\<close> bytes.
  The chunk has 80 bytes per member; with more than \<open>n\<close> members it is cut to its first
  \<open>80 * n\<close> bytes, with fewer it is followed by zero bytes up to \<open>80 * n\<close>.
\<close>

theorem group_pack_any_length:
  assumes "sasChunk [] grp = Inr chunk" and "0 \<le> n" and "n \<le> 32767"
  shows "(\<exists>nb. pack_h n = Inr nb \<and>
           sendGroupTokenRequest_pack (new_GroupTokenRequest n grp) =
             Inr ([0, 5] @ nb @ pack_s (nat (80 * n)) chunk) \<and>
           length ([0, 5] @ nb @ pack_s (nat (80 * n)) chunk) = 4 + 80 * nat n) \<and>
         length chunk = 80 * length grp \<and>
         (nat n \<le> length grp \<longrightarrow> pack_s (nat (80 * n)) chunk = take (80 * nat n) chunk) \<and>
         (length grp \<le> nat n \<longrightarrow>
           pack_s (nat (80 * n)) chunk = chunk @ replicate (80 * nat n - 80 * length grp) 0)"
proof -
  have len: "length chunk = 80 * length grp" by (rule length_sasChunk [OF assms(1)])
  from pack_h_range [of n] assms(2,3) obtain nb where nb: "pack_h n = Inr nb" by auto
  have e: "nat (80 * n) = 80 * nat n" using assms(2) by (simp add: nat_mult_distrib)
  have p: "sendGroupTokenRequest_pack (new_GroupTokenRequest n grp) =
             Inr ([0, 5] @ nb @ pack_s (nat (80 * n)) chunk)"
    by (rule group_pack_ok [OF assms nb])
  have l: "length ([0, 5] @ nb @ pack_s (nat (80 * n)) chunk) = 4 + 80 * nat n"
    using length_pack_h [OF nb] by (simp add: length_pack_s e)
  have a: "\<exists>nb. pack_h n = Inr nb \<and>
           sendGroupTokenRequest_pack (new_GroupTokenRequest n grp) =
             Inr ([0, 5] @ nb @ pack_s (nat (80 * n)) chunk) \<and>
           length ([0, 5] @ nb @ pack_s (nat (80 * n)) chunk) = 4 + 80 * nat n"
    using nb p l by blast
  have b: "nat n \<le> length grp \<longrightarrow> pack_s (nat (80 * n)) chunk = take (80 * nat n) chunk"
    by (simp add: e pack_s_long len)
  have c: "length grp \<le> nat n \<longrightarrow>
           pack_s (nat (80 * n)) chunk = chunk @ replicate (80 * nat n - 80 * length grp) 0"
    by (simp add: e pack_s_short len)
  from a len b c show ?thesis by (intro conjI)
qed

theorem group_pack_any_length_witness:
  "sasChunk [] [(''bob'', 1, ''tokA'')] =
     Inr (ascii_bytes ''bob'' @ replicate 9 0x20 @ [0, 0, 0, 1]
          @ ascii_bytes ''tokA'' @ replicate 60 0x00) \<and>
   (0 :: int) \<le> 2 \<and> (2 :: int) \<le> 32767 \<and> (0 :: int) \<le> 0 \<and> (0 :: int) \<le> 32767 \<and>
   sendGroupTokenRequest_pack (new_GroupTokenRequest 2 [(''bob'', 1, ''tokA'')]) =
     Inr ([0, 5] @ [0, 2]
          @ (ascii_bytes ''bob'' @ replicate 9 0x20 @ [0, 0, 0, 1]
             @ ascii_bytes ''tokA'' @ replicate 60 0x00)
          @ replicate 80 0x00) \<and>
   sendGroupTokenRequest_pack (new_GroupTokenRequest 0 [(''bob'', 1, ''tokA'')]) =
     Inr ([0, 5] @ [0, 0])"
proof -
  let ?grp = "[(''bob'', 1 :: int, ''tokA'')]"
  let ?chunk = "ascii_bytes ''bob'' @ replicate 9 0x20 @ [0, 0, 0, 1]
          @ ascii_bytes ''tokA'' @ replicate 60 (0x00 :: byte)"
  have c: "sasChunk [] ?grp = Inr ?chunk" by code_simp
  have r: "(0 :: int) \<le> 2" "(2 :: int) \<le> 32767" "(0 :: int) \<le> 0" "(0 :: int) \<le> 32767"
    by simp_all
  have h2: "pack_h 2 = Inr [0, 2]" and h0: "pack_h 0 = Inr [0, 0]" by (simp_all add: pack_h_def)
  from group_pack_any_length [OF c r(1,2)] h2
  have p2: "sendGroupTokenRequest_pack (new_GroupTokenRequest 2 ?grp) =
              Inr ([0, 5] @ [0, 2] @ pack_s (nat (80 * 2)) ?chunk)"
    and pad: "pack_s (nat (80 * 2)) ?chunk = ?chunk @ replicate (80 * nat 2 - 80 * length ?grp) 0"
    by auto
  from group_pack_any_length [OF c r(3,4)] h0
  have p0: "sendGroupTokenRequest_pack (new_GroupTokenRequest 0 ?grp) =
              Inr ([0, 5] @ [0, 0] @ pack_s (nat (80 * 0)) ?chunk)"
    and cut: "pack_s (nat (80 * 0)) ?chunk = take (80 * nat 0) ?chunk"
    by auto
  have e2: "replicate (80 * nat 2 - 80 * length ?grp) (0 :: byte) = replicate 80 0" by simp
  have e0: "take (80 * nat 0) ?chunk = []" by simp
  have q2: "sendGroupTokenRequest_pack (new_GroupTokenRequest 2 ?grp) =
              Inr ([0, 5] @ [0, 2] @ ?chunk @ replicate 80 0)"
    unfolding p2 pad e2 ..
  have q0: "sendGroupTokenRequest_pack (new_GroupTokenRequest 0 ?grp) = Inr ([0, 5] @ [0, 0])"
    unfolding p0 cut e0 by simp
  from c r q2 q0 show ?thesis by blast
qed

text \<open>
  These two conditions are exactly those under which the packing succeeds, whatever the
  length of the list.
\<close>

lemma pack_h_Inr_iff: "(\<exists>b. pack_h v = Inr b) \<longleftrightarrow> - 32768 \<le> v \<and> v \<le> 32767"
  by (simp add: pack_h_def Let_def)

lemma group_pack_succeeds_iff:
  "(\<exists>p. sendGroupTokenRequest_pack (new_GroupTokenRequest n grp) = Inr p) \<longleftrightarrow>
   (\<exists>chunk. sasChunk [] grp = Inr chunk) \<and> 0 \<le> n \<and> n \<le> 32767"
proof
  assume "\<exists>p. sendGroupTokenRequest_pack (new_GroupTokenRequest n grp) = Inr p"
  then obtain p where p: "sendGroupTokenRequest_pack (new_GroupTokenRequest n grp) = Inr p" ..
  have e: "sendGroupTokenRequest_pack (new_GroupTokenRequest n grp) =
      and_then (sasChunk [] grp) (\<lambda>chunk.
        if n < 0 then Inl StructError
        else and_then (pack_h 5) (\<lambda>t. and_then (pack_h n) (\<lambda>nb.
               Inr (t @ nb @ pack_s (nat (80 * n)) chunk))))"
    by (simp add: sendGroupTokenRequest_pack_def new_GroupTokenRequest_def cong: if_cong)
  from p [unfolded e] obtain chunk where c: "sasChunk [] grp = Inr chunk"
    and r: "(if n < 0 then Inl StructError
             else and_then (pack_h 5) (\<lambda>t. and_then (pack_h n) (\<lambda>nb.
                    Inr (t @ nb @ pack_s (nat (80 * n)) chunk)))) = Inr p"
    by (cases "sasChunk [] grp") (simp_all add: and_then_simps)
  from r have n0: "0 \<le> n" by (cases "n < 0") simp_all
  with r obtain nb where "pack_h n = Inr nb" by (auto simp: and_then_Inr)
  then have "n \<le> 32767" using pack_h_Inr_iff [of n] by blast
  with c n0 show "(\<exists>chunk. sasChunk [] grp = Inr chunk) \<and> 0 \<le> n \<and> n \<le> 32767" by blast
next
  assume a: "(\<exists>chunk. sasChunk [] grp = Inr chunk) \<and> 0 \<le> n \<and> n \<le> 32767"
  then obtain chunk where c: "sasChunk [] grp = Inr chunk" by blast
  from a have n: "0 \<le> n" "n \<le> 32767" by simp_all
  from pack_h_range [of n] n obtain nb where nb: "pack_h n = Inr nb" by auto
  have "sendGroupTokenRequest_pack (new_GroupTokenRequest n grp) =
        Inr ([0, 5] @ nb @ pack_s (nat (80 * n)) chunk)"
    by (rule group_pack_ok [OF c n nb])
  then show "\<exists>p. sendGroupTokenRequest_pack (new_GroupTokenRequest n grp) = Inr p" ..
qed

text \<open>
  C10 as stated fails where the list length differs from \<open>n\<close> and the packing raises
  all the same: one member with \<open>n = 40000\<close>, which the 16-bit header field refuses; no
  member with \<open>n = -1\<close>, which the format refuses; one member with a non-ASCII id and
  \<open>n = 2\<close>.
\<close>

theorem group_pack_counterexample:
  "sendGroupTokenRequest_pack (new_GroupTokenRequest 40000 [(''bob'', 1, ''tokA'')]) =
     Inl StructError \<and>
   sendGroupTokenRequest_pack (new_GroupTokenRequest (- 1) []) = Inl StructError \<and>
   sendGroupTokenRequest_pack (new_GroupTokenRequest 2 [([CHR 0xE9], 1, ''tokA'')]) =
     Inl UnicodeEncodeError"
proof -
  have c: "sasChunk [] [(''bob'', 1, ''tokA'')] =
     Inr (ascii_bytes ''bob'' @ replicate 9 0x20 @ [0, 0, 0, 1]
          @ ascii_bytes ''tokA'' @ replicate 60 0x00)"
    by code_simp
  have a: "sendGroupTokenRequest_pack (new_GroupTokenRequest 40000 [(''bob'', 1, ''tokA'')]) =
     Inl StructError"
    by (simp add: sendGroupTokenRequest_pack_def new_GroupTokenRequest_def c and_then_simps
        pack_h_def del: sasChunk.simps)
  have b: "sendGroupTokenRequest_pack (new_GroupTokenRequest (- 1) []) = Inl StructError"
    by (simp add: sendGroupTokenRequest_pack_def new_GroupTokenRequest_def and_then_simps)
  have d: "sendGroupTokenRequest_pack (new_GroupTokenRequest 2 [([CHR 0xE9], 1, ''tokA'')]) =
     Inl UnicodeEncodeError"
    by code_simp
  from a b d show ?thesis by (intro conjI)
qed

subsection \<open>Reading the members back\<close>

lemma be_word_32:
  "(be_word [ucast (drop_bit 24 w), ucast (drop_bit 16 w), ucast (drop_bit 8 w), ucast w]
      :: 32 word) = w" for w :: "32 word"
proof (rule bit_word_eqI)
  fix n assume "n < LENGTH(32)"
  then consider "n < 8" | "8 \<le> n \<and> n < 16" | "16 \<le> n \<and> n < 24" | "24 \<le> n \<and> n < 32"
    by fastforce
  then show "bit (be_word [ucast (drop_bit 24 w), ucast (drop_bit 16 w),
                           ucast (drop_bit 8 w), ucast w] :: 32 word) n = bit w n"
    by cases (auto simp: be_word_def bit_simps)
qed

lemma sint_16: "- 32768 \<le> v \<Longrightarrow> v \<le> 32767 \<Longrightarrow> sint (word_of_int v :: 16 word) = v"
  by (simp add: sint_sbintrunc' signed_take_bit_int_eq_self)

lemma sint_32:
  "- 2147483648 \<le> v \<Longrightarrow> v \<le> 2147483647 \<Longrightarrow> sint (word_of_int v :: 32 word) = v"
  by (simp add: sint_sbintrunc' signed_take_bit_int_eq_self)

lemma unpack_pack_h: "pack_h v = Inr b \<Longrightarrow> unpack_h b = v"
  by (auto simp: pack_h_def unpack_h_def Let_def be_word_16 sint_16 split: if_splits)

lemma unpack_pack_i: "pack_i v = Inr b \<Longrightarrow> unpack_i b = v"
  by (auto simp: pack_i_def unpack_i_def Let_def be_word_32 sint_32 split: if_splits)

lemma pack_i_range:
  "- 2147483648 \<le> v \<Longrightarrow> v \<le> 2147483647 \<Longrightarrow> \<exists>b. pack_i v = Inr b"
  by (simp add: pack_i_def Let_def)

lemma slices_concat:
  "\<forall>c\<in>set cs. length c = 80 \<Longrightarrow>
   map (\<lambda>i. take 80 (drop (80 * i) (concat cs))) [0..<length cs] = cs"
proof (induction cs)
  case Nil
  then show ?case by simp
next
  case (Cons c cs)
  then have c: "length c = 80" and rest: "\<forall>c\<in>set cs. length c = 80" by simp_all
  have "[0..<length (c # cs)] = 0 # map Suc [0..<length cs]"
    by (simp add: upt_conv_Cons map_Suc_upt del: upt_Suc)
  then have "map (\<lambda>i. take 80 (drop (80 * i) (concat (c # cs)))) [0..<length (c # cs)] =
        take 80 (c @ concat cs) # map (\<lambda>i. take 80 (drop (80 * Suc i) (c @ concat cs))) [0..<length cs]"
    by (simp add: comp_def)
  also have "take 80 (c @ concat cs) = c" by (simp add: c)
  also have "map (\<lambda>i. take 80 (drop (80 * Suc i) (c @ concat cs))) [0..<length cs] =
             map (\<lambda>i. take 80 (drop (80 * i) (concat cs))) [0..<length cs]"
    by (simp add: c)
  also have "\<dots> = cs" by (rule Cons.IH [OF rest])
  finally show ?case .
qed

lemma unpack_group_all:
  "list_all2 (\<lambda>c s. unpack_sas c = Inr s) cs grp \<Longrightarrow> unpack_group acc cs = Inr (acc @ grp)"
proof (induction cs arbitrary: acc grp)
  case Nil
  then show ?case by simp
next
  case (Cons c cs)
  from Cons.prems obtain s grp' where g: "grp = s # grp'" and s: "unpack_sas c = Inr s"
    and rest: "list_all2 (\<lambda>c s. unpack_sas c = Inr s) cs grp'"
    by (auto simp: list_all2_Cons1)
  show ?case using Cons.IH [OF rest, of "acc @ [s]"] by (simp add: s g)
qed

lemma list_all2_choose:
  "\<forall>s\<in>set xs. \<exists>c. P s c \<Longrightarrow> \<exists>cs. list_all2 P xs cs"
proof (induction xs)
  case Nil
  then show ?case by simp
next
  case (Cons x xs)
  then obtain c cs where "P x c" "list_all2 P xs cs" by auto
  then have "list_all2 P (x # xs) (c # cs)" by simp
  then show ?case by blast
qed

lemma group_unpack_chunks:
  assumes cs: "list_all2 (\<lambda>c s. unpack_sas c = Inr s) cs grp"
    and len: "\<forall>c\<in>set cs. length c = 80"
    and hdr: "length hdr = 4" and tk: "ascii_decode tokb = Inr tok" and ltk: "length tokb = 64"
  shows "sendGroupTokenRequest_unpack (int (length grp)) (hdr @ concat cs @ tokb) =
           Inr \<lparr>gtres_type = unpack_h (take 2 hdr), gtres_n = unpack_h (drop 2 hdr),
                gtres_group = grp, gtres_token = tok\<rparr>"
proof -
  let ?n = "int (length grp)"
  let ?res = "hdr @ concat cs @ tokb"
  have lcs: "length cs = length grp" using cs by (rule list_all2_lengthD)
  have lc: "length (concat cs) = 80 * length grp" using len lcs by (simp add: length_concat_80)
  have e: "nat (80 * ?n) = 80 * length grp" by (simp add: nat_mult_distrib)
  have lres: "int (length ?res) = 4 + 80 * ?n + 64" by (simp add: hdr lc ltk)
  have raw2: "take (nat (80 * ?n)) (drop 4 ?res) = concat cs" by (simp add: e hdr lc)
  have sl: "map (\<lambda>i. take 80 (drop (80 * i) (concat cs))) [0..<nat ?n] = cs"
    using slices_concat [OF len] by (simp add: lcs)
  have ug: "unpack_group [] cs = Inr grp" using unpack_group_all [OF cs, of "[]"] by simp
  have tokf: "drop (4 + nat (80 * ?n)) ?res = tokb" by (simp add: e hdr lc)
  have t1: "take 2 ?res = take 2 hdr" by (simp add: hdr)
  have t2: "take 2 (drop 2 ?res) = drop 2 hdr" by (simp add: hdr)
  have g: "\<not> ?n < 0" by simp
  show ?thesis
    unfolding sendGroupTokenRequest_unpack_def Let_def raw2 sl ug tokf tk t1 t2
    using lres by (simp add: and_then_simps)
qed

section \<open>The calls from request to reply\<close>

text \<open>
  When the first datagram received is a reply that fits the buffer and is not taken for an
  error reply, each \<^verbatim>\<open>send...\<close> function sends its request once and returns what its
  unpacking makes of the reply.
\<close>

lemma sendPayload_reply_Return:
  "res \<noteq> [] \<Longrightarrow> length res \<noteq> 4 \<Longrightarrow> sendPayload_reply res = Return res"
  by (simp add: sendPayload_reply_def)

lemma sendPayload_answered:
  assumes "sock 0 = Recv res" and "length res \<le> bufSize"
  shows "sendPayload sock payload bufSize 5 = Some (sendPayload_reply res, 5, [payload])"
  using sendPayload_first_reply [of 0 sock res 5 payload bufSize] assms by simp

lemma sendIndividualTokenRequest_answered:
  assumes "sendIndividualTokenRequest_pack itr = Inr payload"
    and "sock 0 = Recv res" and "length res = 82"
  shows "sendIndividualTokenRequest sock itr =
         Some (returned (sendIndividualTokenRequest_unpack res), [payload])"
proof -
  have r: "sendPayload_reply res = Return res"
    using assms(3) by (intro sendPayload_reply_Return) auto
  have "sendPayload sock payload 4096 5 = Some (Return res, 5, [payload])"
    using sendPayload_answered [of sock res 4096 payload] assms(2,3) by (simp add: r)
  then show ?thesis by (simp add: sendIndividualTokenRequest_def assms(1))
qed

lemma sendIndividualTokenValidation_answered:
  assumes "sendIndividualTokenValidation_pack itv = Inr payload"
    and "sock 0 = Recv res" and "length res = 83"
  shows "sendIndividualTokenValidation sock itv =
         Some (returned (sendIndividualTokenValidation_unpack res), [payload])"
proof -
  have r: "sendPayload_reply res = Return res"
    using assms(3) by (intro sendPayload_reply_Return) auto
  have "sendPayload sock payload 4096 5 = Some (Return res, 5, [payload])"
    using sendPayload_answered [of sock res 4096 payload] assms(2,3) by (simp add: r)
  then show ?thesis by (simp add: sendIndividualTokenValidation_def assms(1))
qed

lemma sendGroupTokenRequest_answered:
  assumes "sendGroupTokenRequest_pack gtr = Inr payload"
    and "sock 0 = Recv res" and "4 < length res" and "length res \<le> 4096"
  shows "sendGroupTokenRequest sock gtr =
         Some (returned (sendGroupTokenRequest_unpack (gtr_n gtr) res), [payload])"
proof -
  have r: "sendPayload_reply res = Return res"
    using assms(3) by (intro sendPayload_reply_Return) auto
  have "sendPayload sock payload 4096 5 = Some (Return res, 5, [payload])"
    using sendPayload_answered [of sock res 4096 payload] assms(2,4) by (simp add: r)
  then show ?thesis by (simp add: sendGroupTokenRequest_def assms(1))
qed

lemma sendGroupTokenValidation_answered:
  assumes "sendGroupTokenValidation_pack gtv = Inr payload"
    and "sock 0 = Recv res" and "4 < length res" and "length res \<le> 4096"
  shows "sendGroupTokenValidation sock gtv =
         Some (returned (sendGroupTokenValidation_unpack (gtv_n gtv) res), [payload])"
proof -
  have r: "sendPayload_reply res = Return res"
    using assms(3) by (intro sendPayload_reply_Return) auto
  have "sendPayload sock payload 4096 5 = Some (Return res, 5, [payload])"
    using sendPayload_answered [of sock res 4096 payload] assms(2,4) by (simp add: r)
  then show ?thesis by (simp add: sendGroupTokenValidation_def assms(1))
qed

text \<open>
  \<^verbatim>\<open>recv(4096)\<close> cuts a longer datagram: the success reply to a group request of 51
  members or more (4148 bytes and up) reaches \<^verbatim>\<open>struct.unpack\<close> with 4096 bytes and is
  refused there.
\<close>
lemma sendGroupTokenRequest_long_reply:
  assumes "sendGroupTokenRequest_pack gtr = Inr payload"
    and "sock 0 = Recv res" and "int (length res) = 4 + 80 * gtr_n gtr + 64"
    and "51 \<le> gtr_n gtr"
  shows "sendGroupTokenRequest sock gtr = Some (Raise StructError, [payload])"
proof -
  have l: "4096 < length res" using assms(3,4) by linarith
  then have lt: "length (take 4096 res) = 4096" by simp
  have r: "sendPayload_reply (take 4096 res) = Return (take 4096 res)"
    by (rule sendPayload_reply_Return) (use lt in auto)
  have "sendPayload sock payload 4096 5 = Some (Return (take 4096 res), 5, [payload])"
    using sendPayload_first_reply [of 0 sock res 5 payload 4096] assms(2) by (simp add: r)
  moreover have "sendGroupTokenRequest_unpack (gtr_n gtr) (take 4096 res) = Inl StructError"
    using assms(3,4) l unfolding sendGroupTokenRequest_unpack_def lt by simp
  ultimately show ?thesis
    by (simp add: sendGroupTokenRequest_def assms(1) returned_def)
qed

section \<open>The group round trip\<close>

text \<open>
  A token shorter than its field is read back with the zero bytes that filled the field,
  as NUL characters.
\<close>

lemma ascii_decode_padded:
  assumes "isascii token"
  shows "ascii_decode (ascii_bytes token @ replicate k 0) = Inr (token @ replicate k (CHR 0x00))"
proof -
  have b: "ascii_bytes (token @ replicate k (CHR 0x00)) = ascii_bytes token @ replicate k 0"
    by (simp add: ascii_bytes_def)
  have "isascii (token @ replicate k (CHR 0x00))"
    using assms by (auto simp: isascii_def list_all_iff)
  then have "ascii_decode (ascii_bytes (token @ replicate k (CHR 0x00))) =
             Inr (token @ replicate k (CHR 0x00))"
    by (rule ascii_decode_bytes)
  then show ?thesis unfolding b .
qed

lemma pack_unpack_sas_padded:
  assumes "isascii i" and "length i \<le> 12" and "strip i = i"
    and "- 2147483648 \<le> nonce" and "nonce \<le> 2147483647"
    and "isascii token" and "length token \<le> 64"
  shows "\<exists>c. pack_sas (i, nonce, token) = Inr c \<and> length c = 80 \<and>
             unpack_sas c = Inr (i, nonce, token @ replicate (64 - length token) (CHR 0x00))"
proof -
  from pack_i_range [OF assms(4,5)] obtain n where n: "pack_i nonce = Inr n" by blast
  then have ln: "length n = 4" by (rule length_pack_i)
  let ?idb = "ascii_bytes (ljust i 12)"
  let ?tb = "ascii_bytes token @ replicate (64 - length token) 0"
  let ?c = "?idb @ n @ ?tb"
  have lid: "length ?idb = 12" using assms(2) by (simp add: length_ascii_bytes ljust_def)
  have ltk: "length ?tb = 64" using assms(7) by (simp add: length_ascii_bytes)
  have ps: "pack_s 64 (ascii_bytes token) = ?tb"
    using assms(7) by (simp add: pack_s_short length_ascii_bytes)
  have p: "pack_sas (i, nonce, token) = Inr ?c"
    by (simp add: pack_sas_def ascii_encode_def isascii_ljust assms(1,6) n and_then_simps
        pack_s_exact lid ps)
  have l: "length ?c = 80" using lid ln ltk by simp
  have f1: "take 12 ?c = ?idb" by (simp add: lid)
  have f2: "take 4 (drop 12 ?c) = n" by (simp add: lid ln)
  have f3: "take 64 (drop 16 ?c) = ?tb" using ltk by (simp add: lid ln)
  have d1: "ascii_decode ?idb = Inr (ljust i 12)"
    by (rule ascii_decode_bytes) (simp add: isascii_ljust assms(1))
  have d3: "ascii_decode ?tb = Inr (token @ replicate (64 - length token) (CHR 0x00))"
    by (rule ascii_decode_padded) (rule assms(6))
  have u: "unpack_sas ?c =
           Inr (i, nonce, token @ replicate (64 - length token) (CHR 0x00))"
    unfolding unpack_sas_def f1 f2 f3 d1 d3
    using l by (simp add: and_then_simps strip_ljust assms(3) unpack_pack_i [OF n])
  from p l u show ?thesis by blast
qed

lemma group_pack_unpack:
  assumes members: "\<forall>(i, nonce, token)\<in>set grp.
      isascii i \<and> length i \<le> 12 \<and> strip i = i \<and>
      - 2147483648 \<le> nonce \<and> nonce \<le> 2147483647 \<and> isascii token \<and> length token \<le> 64"
    and n: "n = int (length grp)" "n \<le> 32767"
    and tok: "isascii tok" "length tok = 64"
  shows "\<exists>p nb. sendGroupTokenRequest_pack (new_GroupTokenRequest n grp) = Inr p \<and>
           length p = 4 + 80 * length grp \<and> pack_h n = Inr nb \<and>
           sendGroupTokenRequest_unpack n ([0, 6] @ nb @ drop 4 p @ ascii_bytes tok) =
             Inr \<lparr>gtres_type = 6, gtres_n = n,
                  gtres_group = map (\<lambda>(i, nonce, token).
                    (i, nonce, token @ replicate (64 - length token) (CHR 0x00))) grp,
                  gtres_token = tok\<rparr>"
proof -
  let ?pad = "\<lambda>(i, nonce, token). (i, nonce :: int, token @ replicate (64 - length token) (CHR 0x00))"
  let ?P = "\<lambda>s c. pack_sas s = Inr c \<and> length c = 80 \<and> unpack_sas c = Inr (?pad s)"
  have "\<forall>s\<in>set grp. \<exists>c. ?P s c"
  proof
    fix s assume s: "s \<in> set grp"
    obtain i nonce token where e: "s = (i, nonce, token)" by (cases s) auto
    from members s e have "isascii i" "length i \<le> 12" "strip i = i"
      "- 2147483648 \<le> nonce" "nonce \<le> 2147483647" "isascii token" "length token \<le> 64"
      by auto
    then have "\<exists>c. pack_sas (i, nonce, token) = Inr c \<and> length c = 80 \<and>
      unpack_sas c = Inr (i, nonce, token @ replicate (64 - length token) (CHR 0x00))"
      by (rule pack_unpack_sas_padded)
    then show "\<exists>c. ?P s c" unfolding e by simp
  qed
  then have "\<exists>cs. list_all2 ?P grp cs" by (rule list_all2_choose)
  then obtain cs where cs: "list_all2 ?P grp cs" ..
  have pk: "list_all2 (\<lambda>s c. pack_sas s = Inr c) grp cs"
    using cs by (rule list_all2_mono) simp
  have up: "list_all2 (\<lambda>c s. unpack_sas c = Inr s) cs (map ?pad grp)"
    using cs by (auto simp: list_all2_conv_all_nth)
  have len: "\<forall>c\<in>set cs. length c = 80"
    using cs by (auto simp: list_all2_conv_all_nth in_set_conv_nth)
  have lcs: "length cs = length grp" using cs by (simp add: list_all2_lengthD)
  have chunk: "sasChunk [] grp = Inr (concat cs)" using sasChunk_chunks [OF pk, of "[]"] by simp
  have n0: "0 \<le> n" using n(1) by simp
  from pack_h_range [of n] n0 n(2) obtain nb where nb: "pack_h n = Inr nb" by auto
  have lnb: "length nb = 2" using nb by (rule length_pack_h)
  have lc: "length (concat cs) = nat (80 * n)"
    using len lcs by (simp add: length_concat_80 n(1) nat_mult_distrib)
  let ?p = "[0, 5] @ nb @ concat cs"
  have p: "sendGroupTokenRequest_pack (new_GroupTokenRequest n grp) = Inr ?p"
    using group_pack_ok [OF chunk n0 n(2) nb] lc by (simp add: pack_s_exact)
  have lp: "length ?p = 4 + 80 * length grp"
    using len lcs by (simp add: lnb length_concat_80)
  have d4: "drop 4 ?p = concat cs" by (simp add: lnb)
  have tk: "ascii_decode (ascii_bytes tok) = Inr tok" by (rule ascii_decode_bytes) (rule tok(1))
  have ltk: "length (ascii_bytes tok) = 64" by (simp add: length_ascii_bytes tok(2))
  have hdr: "length ([0, 6] @ nb) = 4" by (simp add: lnb)
  have h1: "unpack_h (take 2 ([0, 6] @ nb)) = 6" by (simp add: unpack_h_def be_word_def)
  have h2: "unpack_h (drop 2 ([0, 6] @ nb)) = n" using unpack_pack_h [OF nb] by simp
  have ln: "int (length (map ?pad grp)) = n" by (simp add: n(1))
  have "sendGroupTokenRequest_unpack n (([0, 6] @ nb) @ concat cs @ ascii_bytes tok) =
        Inr \<lparr>gtres_type = 6, gtres_n = n, gtres_group = map ?pad grp, gtres_token = tok\<rparr>"
    using group_unpack_chunks [OF up len hdr tk ltk] unfolding h1 h2 ln .
  then have u: "sendGroupTokenRequest_unpack n ([0, 6] @ nb @ drop 4 ?p @ ascii_bytes tok) =
        Inr \<lparr>gtres_type = 6, gtres_n = n, gtres_group = map ?pad grp, gtres_token = tok\<rparr>"
    unfolding d4 by simp
  from p lp nb u show ?thesis by blast
qed

text \<open>
  The whole call, for a reply that arrives after \<open>k\<close> timeouts: a reply that fits the
  receive buffer is unpacked as it is, a longer one is cut to 4096 bytes and refused.
\<close>

lemma group_call_short_reply:
  assumes p: "sendGroupTokenRequest_pack gtr = Inr p"
    and t: "\<forall>i<k. is_timeout (sock i)" and r: "sock k = Recv res" and k: "k < 5"
    and l: "4 < length res" "length res \<le> 4096"
  shows "sendGroupTokenRequest sock gtr =
         Some (returned (sendGroupTokenRequest_unpack (gtr_n gtr) res), replicate (Suc k) p)"
proof -
  have b: "(5 :: int) < 0 \<or> int k < 5" using k by simp
  have rr: "sendPayload_reply res = Return res"
    using l(1) by (intro sendPayload_reply_Return) auto
  have "sendPayload sock p 4096 5 =
        Some (sendPayload_reply (take 4096 res), 5 - int k, replicate (Suc k) p)"
    using t r b by (rule sendPayload_first_reply)
  then have "sendPayload sock p 4096 5 = Some (Return res, 5 - int k, replicate (Suc k) p)"
    using l(2) by (simp add: rr)
  then show ?thesis by (simp add: sendGroupTokenRequest_def p)
qed

lemma group_call_long_reply:
  assumes p: "sendGroupTokenRequest_pack gtr = Inr p"
    and t: "\<forall>i<k. is_timeout (sock i)" and r: "sock k = Recv res" and k: "k < 5"
    and l: "int (length res) = 4 + 80 * gtr_n gtr + 64" and n: "51 \<le> gtr_n gtr"
  shows "sendGroupTokenRequest sock gtr = Some (Raise StructError, replicate (Suc k) p)"
proof -
  have b: "(5 :: int) < 0 \<or> int k < 5" using k by simp
  have gt: "4096 < length res" using l n by linarith
  then have lt: "length (take 4096 res) = 4096" by simp
  have rr: "sendPayload_reply (take 4096 res) = Return (take 4096 res)"
    by (rule sendPayload_reply_Return) (use lt in auto)
  have "sendPayload sock p 4096 5 =
        Some (sendPayload_reply (take 4096 res), 5 - int k, replicate (Suc k) p)"
    using t r b by (rule sendPayload_first_reply)
  then have s: "sendPayload sock p 4096 5 =
        Some (Return (take 4096 res), 5 - int k, replicate (Suc k) p)"
    by (simp add: rr)
  have u: "sendGroupTokenRequest_unpack (gtr_n gtr) (take 4096 res) = Inl StructError"
    using n unfolding sendGroupTokenRequest_unpack_def lt by simp
  show ?thesis by (simp add: sendGroupTokenRequest_def p s u returned_def)
qed

text \<open>
  C3 (as amended). Take a group of \<open>n\<close> members whose ids are at most 12 ASCII characters
  with no whitespace at either end, whose nonces fit 32 signed bits and whose tokens are
  at most 64 ASCII characters. For \<open>n \<le> 32767\<close> the request packs to \<open>4 + 80 * n\<close> bytes,
  the 4-byte header and \<open>n\<close> chunks of 80 bytes. When the matching success reply (type 6,
  the same \<open>n\<close>, the same chunks, a 64-character group token) is the first datagram
  received within the 5 attempts, \<^verbatim>\<open>sendGroupTokenRequest\<close> returns, for \<open>n \<le> 50\<close>, the
  \<open>n\<close> members in their order, each id and nonce equal to the original and each token
  the original followed by NUL characters up to 64; a token of exactly 64 characters
  comes back equal. For \<open>n \<ge> 51\<close> that reply is longer than the 4096 bytes
  \<^verbatim>\<open>recv\<close> hands over, and the call raises \<^verbatim>\<open>struct.error\<close>.
\<close>

theorem group_roundtrip:
  assumes members: "\<forall>(i, nonce, token)\<in>set grp.
      isascii i \<and> length i \<le> 12 \<and> strip i = i \<and>
      - 2147483648 \<le> nonce \<and> nonce \<le> 2147483647 \<and> isascii token \<and> length token \<le> 64"
    and n: "n = int (length grp)" "n \<le> 32767"
    and tok: "isascii tok" "length tok = 64"
  shows "\<exists>p nb. sendGroupTokenRequest_pack (new_GroupTokenRequest n grp) = Inr p \<and>
           length p = 4 + 80 * length grp \<and> pack_h n = Inr nb \<and>
           (\<forall>sock k. k < 5 \<and> (\<forall>i<k. is_timeout (sock i)) \<and>
                sock k = Recv ([0, 6] @ nb @ drop 4 p @ ascii_bytes tok) \<longrightarrow>
              (n \<le> 50 \<longrightarrow>
                 sendGroupTokenRequest sock (new_GroupTokenRequest n grp) =
                   Some (Return \<lparr>gtres_type = 6, gtres_n = n,
                           gtres_group = map (\<lambda>(i, nonce, token).
                             (i, nonce, token @ replicate (64 - length token) (CHR 0x00))) grp,
                           gtres_token = tok\<rparr>,
                         replicate (Suc k) p)) \<and>
              (51 \<le> n \<longrightarrow>
                 sendGroupTokenRequest sock (new_GroupTokenRequest n grp) =
                   Some (Raise StructError, replicate (Suc k) p))) \<and>
           ((\<forall>(i, nonce, token)\<in>set grp. length token = 64) \<longrightarrow>
              map (\<lambda>(i, nonce, token).
                 (i, nonce, token @ replicate (64 - length token) (CHR 0x00))) grp = grp)"
proof -
  let ?gtr = "new_GroupTokenRequest n grp"
  let ?pad = "\<lambda>(i, nonce, token). (i, nonce :: int, token @ replicate (64 - length token) (CHR 0x00))"
  from group_pack_unpack [OF members n tok] obtain p nb where
    p: "sendGroupTokenRequest_pack ?gtr = Inr p" and lp: "length p = 4 + 80 * length grp"
    and nb: "pack_h n = Inr nb"
    and u: "sendGroupTokenRequest_unpack n ([0, 6] @ nb @ drop 4 p @ ascii_bytes tok) =
        Inr \<lparr>gtres_type = 6, gtres_n = n, gtres_group = map ?pad grp, gtres_token = tok\<rparr>"
    by blast
  let ?res = "[0, 6] @ nb @ drop 4 p @ ascii_bytes tok"
  have gn: "gtr_n ?gtr = n" by (simp add: new_GroupTokenRequest_def)
  have lnb: "length nb = 2" using nb by (rule length_pack_h)
  have lres: "length ?res = 4 + 80 * length grp + 64"
    by (simp add: lnb lp length_ascii_bytes tok(2))
  have calls: "\<forall>sock k. k < 5 \<and> (\<forall>i<k. is_timeout (sock i)) \<and> sock k = Recv ?res \<longrightarrow>
      (n \<le> 50 \<longrightarrow> sendGroupTokenRequest sock ?gtr =
         Some (Return \<lparr>gtres_type = 6, gtres_n = n, gtres_group = map ?pad grp,
                        gtres_token = tok\<rparr>, replicate (Suc k) p)) \<and>
      (51 \<le> n \<longrightarrow> sendGroupTokenRequest sock ?gtr =
         Some (Raise StructError, replicate (Suc k) p))"
  proof (intro allI impI conjI)
    fix sock :: socket and k :: nat
    assume h: "k < 5 \<and> (\<forall>i<k. is_timeout (sock i)) \<and> sock k = Recv ?res"
    then have k: "k < 5" and t: "\<forall>i<k. is_timeout (sock i)" and r: "sock k = Recv ?res"
      by simp_all
    {
      assume "n \<le> 50"
      then have "length grp \<le> 50" using n(1) by simp
      then have l: "4 < length ?res" "length ?res \<le> 4096" unfolding lres by simp_all
      have "sendGroupTokenRequest sock ?gtr =
            Some (returned (sendGroupTokenRequest_unpack (gtr_n ?gtr) ?res), replicate (Suc k) p)"
        using p t r k l by (rule group_call_short_reply)
      then show "sendGroupTokenRequest sock ?gtr =
         Some (Return \<lparr>gtres_type = 6, gtres_n = n, gtres_group = map ?pad grp,
                        gtres_token = tok\<rparr>, replicate (Suc k) p)"
        unfolding gn u by (simp add: returned_def)
    }
    {
      assume big: "51 \<le> n"
      have "int (length ?res) = 4 + 80 * n + 64"
        unfolding lres n(1) by simp
      then have l: "int (length ?res) = 4 + 80 * gtr_n ?gtr + 64"
        unfolding gn .
      have b: "51 \<le> gtr_n ?gtr" unfolding gn by (rule big)
      show "sendGroupTokenRequest sock ?gtr = Some (Raise StructError, replicate (Suc k) p)"
        using p t r k l b by (rule group_call_long_reply)
    }
  qed
  have same: "(\<forall>(i, nonce, token)\<in>set grp. length token = 64) \<longrightarrow> map ?pad grp = grp"
    by (induction grp) auto
  from p lp nb calls same show ?thesis by blast
qed

theorem group_roundtrip_witness:
  "isascii ''bob'' \<and> length ''bob'' \<le> 12 \<and> strip ''bob'' = ''bob'' \<and>
   isascii ''carl'' \<and> length ''carl'' \<le> 12 \<and> strip ''carl'' = ''carl'' \<and>
   isascii ''tokA'' \<and> length ''tokA'' \<le> 64 \<and>
   isascii (replicate 64 (CHR ''b'')) \<and> length (replicate 64 (CHR ''b'')) \<le> 64 \<and>
   isascii (replicate 64 (CHR ''g'')) \<and> length (replicate 64 (CHR ''g'')) = 64 \<and>
   (2 :: int) = int (length [(''bob'', 1 :: int, ''tokA''),
                             (''carl'', 2, replicate 64 (CHR ''b''))]) \<and>
   (2 :: int) \<le> 32767 \<and> (2 :: int) \<le> 50 \<and> (0 :: nat) < 5 \<and>
   sendGroupTokenRequest_pack
     (new_GroupTokenRequest 2 [(''bob'', 1, ''tokA''), (''carl'', 2, replicate 64 (CHR ''b''))]) =
     Inr ([0, 5, 0, 2]
          @ ascii_bytes ''bob'' @ replicate 9 0x20 @ [0, 0, 0, 1]
          @ ascii_bytes ''tokA'' @ replicate 60 0x00
          @ ascii_bytes ''carl'' @ replicate 8 0x20 @ [0, 0, 0, 2]
          @ ascii_bytes (replicate 64 (CHR ''b''))) \<and>
   sendGroupTokenRequest
     (\<lambda>_. Recv ([0, 6] @ [0, 2]
                 @ drop 4 ([0, 5, 0, 2]
                    @ ascii_bytes ''bob'' @ replicate 9 0x20 @ [0, 0, 0, 1]
                    @ ascii_bytes ''tokA'' @ replicate 60 0x00
                    @ ascii_bytes ''carl'' @ replicate 8 0x20 @ [0, 0, 0, 2]
                    @ ascii_bytes (replicate 64 (CHR ''b'')))
                 @ ascii_bytes (replicate 64 (CHR ''g''))))
     (new_GroupTokenRequest 2 [(''bob'', 1, ''tokA''), (''carl'', 2, replicate 64 (CHR ''b''))]) =
     Some (Return \<lparr>gtres_type = 6, gtres_n = 2,
                   gtres_group = [(''bob'', 1, ''tokA'' @ replicate 60 (CHR 0x00)),
                                  (''carl'', 2, replicate 64 (CHR ''b''))],
                   gtres_token = replicate 64 (CHR ''g'')\<rparr>,
           [[0, 5, 0, 2]
            @ ascii_bytes ''bob'' @ replicate 9 0x20 @ [0, 0, 0, 1]
            @ ascii_bytes ''tokA'' @ replicate 60 0x00
            @ ascii_bytes ''carl'' @ replicate 8 0x20 @ [0, 0, 0, 2]
            @ ascii_bytes (replicate 64 (CHR ''b''))])"
proof -
  let ?grp = "[(''bob'', 1 :: int, ''tokA''), (''carl'', 2, replicate 64 (CHR ''b''))]"
  let ?tok = "replicate 64 (CHR ''g'')"
  let ?P = "[0, 5, 0, 2]
          @ ascii_bytes ''bob'' @ replicate 9 0x20 @ [0, 0, 0, 1]
          @ ascii_bytes ''tokA'' @ replicate 60 0x00
          @ ascii_bytes ''carl'' @ replicate 8 0x20 @ [0, 0, 0, 2]
          @ ascii_bytes (replicate 64 (CHR ''b'')) :: bytes"
  let ?sock = "\<lambda>_ :: nat. Recv ([0, 6] @ [0, 2] @ drop 4 ?P @ ascii_bytes ?tok)"
  have a: "isascii ''bob'' \<and> length ''bob'' \<le> 12 \<and> strip ''bob'' = ''bob'' \<and>
   isascii ''carl'' \<and> length ''carl'' \<le> 12 \<and> strip ''carl'' = ''carl'' \<and>
   isascii ''tokA'' \<and> length ''tokA'' \<le> 64"
    by code_simp
  have b: "isascii (replicate 64 (CHR ''b'')) \<and> length (replicate 64 (CHR ''b'')) \<le> 64 \<and>
   isascii (replicate 64 (CHR ''g'')) \<and> length (replicate 64 (CHR ''g'')) = 64"
    by (simp add: isascii_def list_all_iff)
  have n: "(2 :: int) = int (length ?grp)" "(2 :: int) \<le> 32767" by simp_all
  have c: "(2 :: int) \<le> 50 \<and> (0 :: nat) < 5" by simp
  have members: "\<forall>(i, nonce, token)\<in>set ?grp.
      isascii i \<and> length i \<le> 12 \<and> strip i = i \<and>
      - 2147483648 \<le> nonce \<and> nonce \<le> 2147483647 \<and> isascii token \<and> length token \<le> 64"
    using a b by simp
  have tok: "isascii ?tok" "length ?tok = 64" using b by simp_all
  have pk: "sendGroupTokenRequest_pack (new_GroupTokenRequest 2 ?grp) = Inr ?P" by code_simp
  have h2: "pack_h 2 = Inr [0, 2]" by (simp add: pack_h_def)
  have pad: "map (\<lambda>(i, nonce, token).
               (i, nonce :: int, token @ replicate (64 - length token) (CHR 0x00))) ?grp =
             [(''bob'', 1, ''tokA'' @ replicate 60 (CHR 0x00)),
              (''carl'', 2, replicate 64 (CHR ''b''))]"
    by simp
  from group_roundtrip [OF members n tok] obtain p nb where
    p: "sendGroupTokenRequest_pack (new_GroupTokenRequest 2 ?grp) = Inr p"
    and nb: "pack_h 2 = Inr nb"
    and calls: "\<forall>sock k. k < 5 \<and> (\<forall>i<k. is_timeout (sock i)) \<and>
                sock k = Recv ([0, 6] @ nb @ drop 4 p @ ascii_bytes ?tok) \<longrightarrow>
              ((2 :: int) \<le> 50 \<longrightarrow>
                 sendGroupTokenRequest sock (new_GroupTokenRequest 2 ?grp) =
                   Some (Return \<lparr>gtres_type = 6, gtres_n = 2,
                           gtres_group = map (\<lambda>(i, nonce, token).
                             (i, nonce, token @ replicate (64 - length token) (CHR 0x00))) ?grp,
                           gtres_token = ?tok\<rparr>,
                         replicate (Suc k) p)) \<and>
              ((51 :: int) \<le> 2 \<longrightarrow>
                 sendGroupTokenRequest sock (new_GroupTokenRequest 2 ?grp) =
                   Some (Raise StructError, replicate (Suc k) p))"
    by blast
  from p pk have pe: "p = ?P" by simp
  from nb h2 have ne: "nb = [0, 2]" by simp
  have k: "(0 :: nat) < 5 \<and> (\<forall>i<0. is_timeout (?sock i)) \<and>
           ?sock 0 = Recv ([0, 6] @ nb @ drop 4 p @ ascii_bytes ?tok)"
    unfolding pe ne by simp
  from calls [rule_format, OF k] c
  have "sendGroupTokenRequest ?sock (new_GroupTokenRequest 2 ?grp) =
        Some (Return \<lparr>gtres_type = 6, gtres_n = 2,
                gtres_group = map (\<lambda>(i, nonce, token).
                  (i, nonce, token @ replicate (64 - length token) (CHR 0x00))) ?grp,
                gtres_token = ?tok\<rparr>,
              replicate (Suc 0) p)"
    by blast
  then have r: "sendGroupTokenRequest ?sock (new_GroupTokenRequest 2 ?grp) =
        Some (Return \<lparr>gtres_type = 6, gtres_n = 2,
                gtres_group = [(''bob'', 1, ''tokA'' @ replicate 60 (CHR 0x00)),
                               (''carl'', 2, replicate 64 (CHR ''b''))],
                gtres_token = ?tok\<rparr>, [?P])"
    unfolding pad pe by simp
  from a b n c pk r show ?thesis by (intro conjI) simp_all
qed

text \<open>
  C3 as stated fails on the group of \<open>bob\<close> and \<open>carl\<close> with the tokens \<open>tokA\<close> and
  \<open>tokB\<close>: the request has 164 bytes, and the matching reply of 228 bytes gives both
  tokens back 64 characters long, the original followed by 60 NUL characters, from the
  unpacking and from the whole call.
\<close>

theorem group_roundtrip_counterexample:
  "sendGroupTokenRequest_pack
     (new_GroupTokenRequest 2 [(''bob'', 1, ''tokA''), (''carl'', 2, ''tokB'')]) =
     Inr ([0, 5, 0, 2]
          @ ascii_bytes ''bob'' @ replicate 9 0x20 @ [0, 0, 0, 1]
          @ ascii_bytes ''tokA'' @ replicate 60 0x00
          @ ascii_bytes ''carl'' @ replicate 8 0x20 @ [0, 0, 0, 2]
          @ ascii_bytes ''tokB'' @ replicate 60 0x00) \<and>
   length ([0, 5, 0, 2]
          @ ascii_bytes ''bob'' @ replicate 9 0x20 @ [0, 0, 0, 1]
          @ ascii_bytes ''tokA'' @ replicate 60 0x00
          @ ascii_bytes ''carl'' @ replicate 8 0x20 @ [0, 0, 0, 2]
          @ ascii_bytes ''tokB'' @ replicate 60 (0x00 :: byte)) = 164 \<and>
   length ([0, 6, 0, 2]
          @ ascii_bytes ''bob'' @ replicate 9 0x20 @ [0, 0, 0, 1]
          @ ascii_bytes ''tokA'' @ replicate 60 0x00
          @ ascii_bytes ''carl'' @ replicate 8 0x20 @ [0, 0, 0, 2]
          @ ascii_bytes ''tokB'' @ replicate 60 0x00
          @ replicate 64 (0x41 :: byte)) = 228 \<and>
   map_sum id gtres_group (sendGroupTokenRequest_unpack 2
         ([0, 6, 0, 2]
          @ ascii_bytes ''bob'' @ replicate 9 0x20 @ [0, 0, 0, 1]
          @ ascii_bytes ''tokA'' @ replicate 60 0x00
          @ ascii_bytes ''carl'' @ replicate 8 0x20 @ [0, 0, 0, 2]
          @ ascii_bytes ''tokB'' @ replicate 60 0x00
          @ replicate 64 0x41)) =
     Inr [(''bob'', 1, ''tokA'' @ replicate 60 (CHR 0x00)),
          (''carl'', 2, ''tokB'' @ replicate 60 (CHR 0x00))] \<and>
   map_sum id gtres_group (sendGroupTokenRequest_unpack 2
         ([0, 6, 0, 2]
          @ ascii_bytes ''bob'' @ replicate 9 0x20 @ [0, 0, 0, 1]
          @ ascii_bytes ''tokA'' @ replicate 60 0x00
          @ ascii_bytes ''carl'' @ replicate 8 0x20 @ [0, 0, 0, 2]
          @ ascii_bytes ''tokB'' @ replicate 60 0x00
          @ replicate 64 0x41)) \<noteq>
     Inr [(''bob'', 1, ''tokA''), (''carl'', 2, ''tokB'')] \<and>
   sendGroupTokenRequest
     (\<lambda>_. Recv ([0, 6, 0, 2]
          @ ascii_bytes ''bob'' @ replicate 9 0x20 @ [0, 0, 0, 1]
          @ ascii_bytes ''tokA'' @ replicate 60 0x00
          @ ascii_bytes ''carl'' @ replicate 8 0x20 @ [0, 0, 0, 2]
          @ ascii_bytes ''tokB'' @ replicate 60 0x00
          @ replicate 64 0x41))
     (new_GroupTokenRequest 2 [(''bob'', 1, ''tokA''), (''carl'', 2, ''tokB'')]) =
     Some (Return \<lparr>gtres_type = 6, gtres_n = 2,
                   gtres_group = [(''bob'', 1, ''tokA'' @ replicate 60 (CHR 0x00)),
                                  (''carl'', 2, ''tokB'' @ replicate 60 (CHR 0x00))],
                   gtres_token = replicate 64 (CHR ''A'')\<rparr>,
           [[0, 5, 0, 2]
            @ ascii_bytes ''bob'' @ replicate 9 0x20 @ [0, 0, 0, 1]
            @ ascii_bytes ''tokA'' @ replicate 60 0x00
            @ ascii_bytes ''carl'' @ replicate 8 0x20 @ [0, 0, 0, 2]
            @ ascii_bytes ''tokB'' @ replicate 60 0x00])"
  by code_simp

end
